theory Spec2Isabelle
  imports
    Complex_Main
    "HOL-Library.AList"
    "HOL-Library.Char_ord"
    "HOL-Library.List_Lexorder"
    "HOL-Library.Product_Lexorder"
    "HOL-Library.Log_Nat"
begin

section \<open>Values of the host language\<close>

text \<open>
  A JavaScript \<^verbatim>\<open>Date\<close>, as far as the program reads it: the local calendar year, the
  zero-based month index of \<^verbatim>\<open>getMonth()\<close>, and the instant in milliseconds.
\<close>

record js_date =
  getFullYear :: nat
  getMonth :: nat
  getTime :: nat

text \<open>
  Truthiness of an optional string: \<^verbatim>\<open>undefined\<close>, \<^verbatim>\<open>null\<close> and the empty string
  are falsy.
\<close>

fun truthy :: "string option \<Rightarrow> bool" where
  "truthy None = False"
| "truthy (Some s) = (s \<noteq> [])"

text \<open>
  A field of a JSON request body or of an options object, where the program treats an
  absent field (\<^verbatim>\<open>undefined\<close>) and \<^verbatim>\<open>null\<close> differently.
\<close>

datatype 'a js_field = Undefined | Null | Val 'a

text \<open>Exceptions a storage call or a handler body can throw.\<close>

datatype exn =
  UniqueViolation | ForeignKeyViolation | NumericOutOfRange | InvalidNumber
  | InvalidByteSequence | TypeError | ZodError

text \<open>
  What a route handler answers: a JSON body with status 200 or 201, a status and a message,
  or a redirect. For a status 500 the message is the handler's fixed prefix; the text of
  the caught exception that the source appends to it is not modelled.
\<close>

datatype 'a response = Json 'a | Status nat string | Redirect string

section \<open>Tables of \<^verbatim>\<open>shared/schema.ts\<close>\<close>

text \<open>
  Each table is the list of its rows. Of every table the model keeps the columns that
  the operations below read or write; credentials, tokens, Stripe customer ids, names and
  \<^verbatim>\<open>updatedAt\<close> are left out. A nullable column is an \<open>option\<close>. An \<^verbatim>\<open>integer\<close>
  column is a 32-bit signed integer in the database: a row holds the value as an \<open>int\<close>,
  and the statements that write \<^verbatim>\<open>users.credits\<close>, \<^verbatim>\<open>orders\<close> and
  \<^verbatim>\<open>credit_purchases.credits\<close> fail on a value outside the range, as
  \<open>int4\<close> below says. The two \<^verbatim>\<open>decimal(10, 2)\<close> columns of a commission hold exact
  rationals.
\<close>

text \<open>
  What the database accepts. An \<^verbatim>\<open>integer\<close> parameter or result lies in
  \<open>- 2 ^ 31 .. 2 ^ 31 - 1\<close> (otherwise: \<^verbatim>\<open>integer out of range\<close>). A text parameter
  does not contain the NUL character (otherwise: \<^verbatim>\<open>invalid byte sequence for encoding
  "UTF8": 0x00\<close>); NUL is the one character of a request string that the database
  refuses. A statement that fails writes nothing. The text check is modelled for the two
  statements on \<^verbatim>\<open>orders\<close>, which store text of the request as it comes.
\<close>

definition int4 :: "int \<Rightarrow> bool" where
  "int4 n = (- (2 ^ 31) \<le> n \<and> n < 2 ^ 31)"

definition pg_text :: "string \<Rightarrow> bool" where
  "pg_text s = (CHR 0x00 \<notin> set s)"

definition pg_text_opt :: "string option \<Rightarrow> bool" where
  "pg_text_opt v = (case v of None \<Rightarrow> True | Some s \<Rightarrow> pg_text s)"

definition pg_text_field :: "string js_field \<Rightarrow> bool" where
  "pg_text_field v = (case v of Val s \<Rightarrow> pg_text s | _ \<Rightarrow> True)"

record user =
  user_id :: string
  user_email :: string
  user_credits :: "int option"
  user_affiliateCode :: "string option"
  user_referredBy :: "string option"

record credit_purchase =
  purchase_id :: string
  purchase_userId :: string
  purchase_amount :: rat
  purchase_credits :: int
  purchase_stripePaymentIntentId :: "string option"
  purchase_status :: "string option"

record order =
  order_id :: string
  order_userId :: string
  order_apolloUrl :: string
  order_creditsUsed :: int
  order_estimatedLeads :: "int option"
  order_deliveryEmail :: string
  order_status :: "string option"
  order_csvUrl :: "string option"
  order_deliveryType :: "string option"
  order_notes :: "string option"
  order_assignedTo :: "string option"
  order_errorMessage :: "string option"
  order_createdAt :: "js_date option"
  order_completedAt :: "js_date option"

record affiliate_click =
  click_id :: string
  click_affiliateCode :: string
  click_ipAddress :: "string option"
  click_userAgent :: "string option"
  click_referrerUrl :: "string option"
  click_createdAt :: "js_date option"

record affiliate_commission =
  commission_id :: string
  commission_affiliateUserId :: string
  commission_referredUserId :: string
  commission_purchaseId :: string
  commission_saleAmount :: rat
  commission_commissionAmount :: rat
  commission_commissionRate :: "rat option"
  commission_status :: "string option"
  commission_paymentMonth :: "string option"
  commission_paidAt :: "js_date option"
  commission_createdAt :: "js_date option"

record database =
  users :: "user list"
  creditPurchases :: "credit_purchase list"
  orders :: "order list"
  affiliateClicks :: "affiliate_click list"
  affiliateCommissions :: "affiliate_commission list"

definition empty_database :: database where
  "empty_database =
     \<lparr>users = [], creditPurchases = [], orders = [], affiliateClicks = [],
      affiliateCommissions = []\<rparr>"

section \<open>Storage: users and credits\<close>

text \<open>
  \<^verbatim>\<open>const [user] = await db.select()...where(eq(users.id, id))\<close>: the first matching row,
  \<^verbatim>\<open>undefined\<close> when there is none.
\<close>

definition getUser :: "database \<Rightarrow> string \<Rightarrow> user option" where
  "getUser db uid = find (\<lambda>u. user_id u = uid) (users db)"

definition getUserByEmail :: "database \<Rightarrow> string \<Rightarrow> user option" where
  "getUserByEmail db email = find (\<lambda>u. user_email u = email) (users db)"

definition getUserByAffiliateCode :: "database \<Rightarrow> string \<Rightarrow> user option" where
  "getUserByAffiliateCode db code = find (\<lambda>u. user_affiliateCode u = Some code) (users db)"

text \<open>
  \<^verbatim>\<open>credits: sql`${users.credits} + ${credits}`\<close> on the rows with the given id. The
  parameter takes the type of the column, \<^verbatim>\<open>integer\<close>: the statement fails when the
  parameter is out of range, and when the sum is out of range on a row it updates. SQL
  arithmetic on \<^verbatim>\<open>NULL\<close> gives \<^verbatim>\<open>NULL\<close>. The result is the updated table and the
  first returned row.
\<close>

definition addCredits :: "database \<Rightarrow> string \<Rightarrow> int \<Rightarrow> exn + database \<times> user option" where
  "addCredits db userId credits =
     (if \<not> int4 credits
         \<or> (\<exists>u \<in> set (users db). user_id u = userId
               \<and> (case user_credits u of None \<Rightarrow> False | Some c \<Rightarrow> \<not> int4 (c + credits)))
      then Inl NumericOutOfRange
      else
        (let upd = (\<lambda>u. if user_id u = userId
                         then u\<lparr>user_credits := map_option (\<lambda>c. c + credits) (user_credits u)\<rparr>
                         else u);
             db' = db\<lparr>users := map upd (users db)\<rparr>
         in Inr (db', getUser db' userId)))"

text \<open>\<^verbatim>\<open>credits: sql`${users.credits} - ${credits}`\<close>, in the same way.\<close>

definition deductCredits :: "database \<Rightarrow> string \<Rightarrow> int \<Rightarrow> exn + database \<times> user option" where
  "deductCredits db userId credits =
     (if \<not> int4 credits
         \<or> (\<exists>u \<in> set (users db). user_id u = userId
               \<and> (case user_credits u of None \<Rightarrow> False | Some c \<Rightarrow> \<not> int4 (c - credits)))
      then Inl NumericOutOfRange
      else
        (let upd = (\<lambda>u. if user_id u = userId
                         then u\<lparr>user_credits := map_option (\<lambda>c. c - credits) (user_credits u)\<rparr>
                         else u);
             db' = db\<lparr>users := map upd (users db)\<rparr>
         in Inr (db', getUser db' userId)))"

text \<open>
  \<^verbatim>\<open>createUser\<close> inserts a row. The table has a primary key on \<^verbatim>\<open>id\<close> and unique
  constraints on \<^verbatim>\<open>email\<close> and \<^verbatim>\<open>affiliate_code\<close> (\<^verbatim>\<open>NULL\<close>s do not collide).
\<close>

definition createUser :: "database \<Rightarrow> user \<Rightarrow> exn + database \<times> user" where
  "createUser db userData =
     (if user_id userData \<in> set (map user_id (users db))
         \<or> user_email userData \<in> set (map user_email (users db))
         \<or> (user_affiliateCode userData \<noteq> None
             \<and> user_affiliateCode userData \<in> set (map user_affiliateCode (users db)))
      then Inl UniqueViolation
      else Inr (db\<lparr>users := users db @ [userData]\<rparr>, userData))"

text \<open>
  \<^verbatim>\<open>generateAffiliateCode\<close>: the random code is a parameter. The update violates the
  unique constraint when another row holds the code already.
\<close>

definition generateAffiliateCode ::
  "database \<Rightarrow> string \<Rightarrow> string \<Rightarrow> exn + database \<times> user option" where
  "generateAffiliateCode db userId affiliateCode =
     (if userId \<in> set (map user_id (users db))
         \<and> (\<exists>u \<in> set (users db). user_id u \<noteq> userId \<and> user_affiliateCode u = Some affiliateCode)
      then Inl UniqueViolation
      else
        (let upd = (\<lambda>u. if user_id u = userId
                         then u\<lparr>user_affiliateCode := Some affiliateCode\<rparr> else u);
             db' = db\<lparr>users := map upd (users db)\<rparr>
         in Inr (db', getUser db' userId)))"

section \<open>Storage: orders\<close>

text \<open>
  The value of \<^verbatim>\<open>insertOrderSchema.parse({...req.body, userId})\<close>: the insertable
  columns of \<^verbatim>\<open>orders\<close> without \<^verbatim>\<open>id\<close>, \<^verbatim>\<open>createdAt\<close> and \<^verbatim>\<open>completedAt\<close>.
\<close>

record insert_order =
  io_userId :: string
  io_apolloUrl :: string
  io_creditsUsed :: int
  io_estimatedLeads :: "int option"
  io_deliveryEmail :: string
  io_status :: "string js_field"
  io_csvUrl :: "string option"
  io_deliveryType :: "string option"
  io_notes :: "string option"
  io_assignedTo :: "string option"
  io_errorMessage :: "string option"

text \<open>
  The request body of \<^verbatim>\<open>POST /api/orders\<close>: every field may be absent. Values of a
  wrong JSON type, which the schema rejects as well, are excluded by the field types. For
  a nullable column without a default an absent field and \<^verbatim>\<open>null\<close> are both stored
  as \<^verbatim>\<open>NULL\<close>, and \<open>None\<close> stands for both; \<^verbatim>\<open>status\<close> has a default, which an
  absent field takes and \<^verbatim>\<open>null\<close> does not.
\<close>

record order_body =
  ob_apolloUrl :: "string option"
  ob_creditsUsed :: "int option"
  ob_estimatedLeads :: "int option"
  ob_deliveryEmail :: "string option"
  ob_status :: "string js_field"
  ob_csvUrl :: "string option"
  ob_deliveryType :: "string option"
  ob_notes :: "string option"
  ob_assignedTo :: "string option"
  ob_errorMessage :: "string option"

text \<open>
  The schema derived from the table requires the \<^verbatim>\<open>notNull\<close> columns without a default
  (\<^verbatim>\<open>userId\<close>, \<^verbatim>\<open>apolloUrl\<close>, \<^verbatim>\<open>creditsUsed\<close>, \<^verbatim>\<open>deliveryEmail\<close>); the
  others are optional. \<^verbatim>\<open>parse\<close> throws when a required field is missing. Whether
  the derived schema also bounds the integer fields to 32 bits depends on the version of
  the library that derives it, which the repository does not fix: \<open>bounds\<close> says
  whether it does. (The range of the columns is checked by the statements below in either
  case.)
\<close>

definition insertOrderSchema_parse ::
  "bool \<Rightarrow> order_body \<Rightarrow> string \<Rightarrow> exn + insert_order" where
  "insertOrderSchema_parse bounds body userId =
     (case (ob_apolloUrl body, ob_creditsUsed body, ob_deliveryEmail body) of
        (Some url, Some n, Some email) \<Rightarrow>
          if bounds \<and> \<not> (int4 n \<and> (case ob_estimatedLeads body of
                                             None \<Rightarrow> True | Some m \<Rightarrow> int4 m))
          then Inl ZodError
          else
            Inr \<lparr>io_userId = userId, io_apolloUrl = url, io_creditsUsed = n,
                 io_estimatedLeads = ob_estimatedLeads body, io_deliveryEmail = email,
                 io_status = ob_status body, io_csvUrl = ob_csvUrl body,
                 io_deliveryType = ob_deliveryType body, io_notes = ob_notes body,
                 io_assignedTo = ob_assignedTo body, io_errorMessage = ob_errorMessage body\<rparr>
      | _ \<Rightarrow> Inl ZodError)"

text \<open>
  \<^verbatim>\<open>createOrder\<close>: the id is the database's \<^verbatim>\<open>gen_random_uuid()\<close> and the creation
  time its \<^verbatim>\<open>now()\<close>, both parameters here. The insert fails when a text value
  contains NUL, when an integer value is out of range, on a duplicate primary key and
  when \<^verbatim>\<open>user_id\<close> references no user. An absent \<^verbatim>\<open>status\<close> takes the column
  default \<^verbatim>\<open>'pending'\<close>.
\<close>

definition order_texts_ok :: "insert_order \<Rightarrow> bool" where
  "order_texts_ok ord =
     (pg_text (io_userId ord) \<and> pg_text (io_apolloUrl ord) \<and> pg_text (io_deliveryEmail ord)
      \<and> pg_text_field (io_status ord) \<and> pg_text_opt (io_csvUrl ord)
      \<and> pg_text_opt (io_deliveryType ord) \<and> pg_text_opt (io_notes ord)
      \<and> pg_text_opt (io_assignedTo ord) \<and> pg_text_opt (io_errorMessage ord))"

definition order_integers_ok :: "insert_order \<Rightarrow> bool" where
  "order_integers_ok ord =
     (int4 (io_creditsUsed ord)
      \<and> (case io_estimatedLeads ord of None \<Rightarrow> True | Some n \<Rightarrow> int4 n))"

definition createOrder ::
  "database \<Rightarrow> insert_order \<Rightarrow> string \<Rightarrow> js_date \<Rightarrow> exn + database \<times> order" where
  "createOrder db ord newId now =
     (if \<not> order_texts_ok ord then Inl InvalidByteSequence
      else if \<not> order_integers_ok ord then Inl NumericOutOfRange
      else if newId \<in> set (map order_id (orders db)) then Inl UniqueViolation
      else if io_userId ord \<notin> set (map user_id (users db)) then Inl ForeignKeyViolation
      else
        (let newOrder =
               \<lparr>order_id = newId, order_userId = io_userId ord,
                order_apolloUrl = io_apolloUrl ord, order_creditsUsed = io_creditsUsed ord,
                order_estimatedLeads = io_estimatedLeads ord,
                order_deliveryEmail = io_deliveryEmail ord,
                order_status =
                  (case io_status ord of
                     Undefined \<Rightarrow> Some ''pending'' | Null \<Rightarrow> None | Val s \<Rightarrow> Some s),
                order_csvUrl = io_csvUrl ord, order_deliveryType = io_deliveryType ord,
                order_notes = io_notes ord, order_assignedTo = io_assignedTo ord,
                order_errorMessage = io_errorMessage ord,
                order_createdAt = Some now, order_completedAt = None\<rparr>
         in Inr (db\<lparr>orders := orders db @ [newOrder]\<rparr>, newOrder)))"

definition getOrderById :: "database \<Rightarrow> string \<Rightarrow> order option" where
  "getOrderById db oid = find (\<lambda>r. order_id r = oid) (orders db)"

text \<open>
  The argument of \<^verbatim>\<open>fulfillOrder\<close>, typed
  \<^verbatim>\<open>{ deliveryType?: string; csvUrl: string; notes?: string; status: string; completedAt: Date }\<close>.
\<close>

record fulfillment_data =
  fd_deliveryType :: "string js_field"
  fd_csvUrl :: string
  fd_notes :: "string js_field"
  fd_status :: string
  fd_completedAt :: js_date

text \<open>
  What \<^verbatim>\<open>.set({ column: v })\<close> of the query builder does to a nullable column: a key
  whose value is \<^verbatim>\<open>undefined\<close> is left out of the \<^verbatim>\<open>SET\<close> clause, so the stored
  value stays; \<^verbatim>\<open>null\<close> stores \<^verbatim>\<open>NULL\<close>; a value is stored.
\<close>

definition set_column :: "'a js_field \<Rightarrow> 'a option \<Rightarrow> 'a option" where
  "set_column v stored = (case v of Undefined \<Rightarrow> stored | Null \<Rightarrow> None | Val x \<Rightarrow> Some x)"

text \<open>
  \<^verbatim>\<open>fulfillOrder\<close> updates the rows with the given id, whatever they hold, and returns
  the first updated row (\<^verbatim>\<open>undefined\<close> when no row matched). The statement fails when
  one of its text parameters contains NUL.
\<close>

definition fulfillOrder ::
  "database \<Rightarrow> string \<Rightarrow> fulfillment_data \<Rightarrow> exn + database \<times> order option" where
  "fulfillOrder db oid fulfillmentData =
     (if \<not> (pg_text oid \<and> pg_text (fd_csvUrl fulfillmentData)
             \<and> pg_text_field (fd_deliveryType fulfillmentData)
             \<and> pg_text_field (fd_notes fulfillmentData)
             \<and> pg_text (fd_status fulfillmentData))
      then Inl InvalidByteSequence
      else
        (let upd = (\<lambda>r. if order_id r = oid
                         then r\<lparr>order_csvUrl := Some (fd_csvUrl fulfillmentData),
                                order_deliveryType :=
                                  set_column (fd_deliveryType fulfillmentData) (order_deliveryType r),
                                order_notes :=
                                  set_column (fd_notes fulfillmentData) (order_notes r),
                                order_status := Some (fd_status fulfillmentData),
                                order_completedAt := Some (fd_completedAt fulfillmentData)\<rparr>
                         else r);
             db' = db\<lparr>orders := map upd (orders db)\<rparr>
         in Inr (db', getOrderById db' oid)))"

section \<open>Routes: orders\<close>

text \<open>
  \<^verbatim>\<open>POST /api/orders\<close>, behind \<^verbatim>\<open>isAuthenticated\<close>: \<open>userId\<close> is the id of the
  session's user, \<open>bounds\<close> the parameter of the schema. A thrown exception is
  answered with status 500; what was written before
  it stays written. The notification email is sent best-effort and has no effect on the
  database or the answer.
\<close>

definition post_orders ::
  "bool \<Rightarrow> database \<Rightarrow> string \<Rightarrow> order_body \<Rightarrow> string \<Rightarrow> js_date
     \<Rightarrow> database \<times> order response" where
  "post_orders bounds db userId body newId now =
     (case insertOrderSchema_parse bounds body userId of
        Inl e \<Rightarrow> (db, Status 500 ''Error creating order: '')
      | Inr orderData \<Rightarrow>
          (case getUser db userId of
             None \<Rightarrow> (db, Status 400 ''Insufficient credits'')
           | Some user \<Rightarrow>
               if (case user_credits user of None \<Rightarrow> 0 | Some c \<Rightarrow> c) < io_creditsUsed orderData
               then (db, Status 400 ''Insufficient credits'')
               else
                 (case deductCredits db userId (io_creditsUsed orderData) of
                    Inl e \<Rightarrow> (db, Status 500 ''Error creating order: '')
                  | Inr (db1, u1) \<Rightarrow>
                      (case createOrder db1 orderData newId now of
                         Inl e \<Rightarrow> (db1, Status 500 ''Error creating order: '')
                       | Inr (db2, ord) \<Rightarrow> (db2, Json ord)))))"

text \<open>
  The body of \<^verbatim>\<open>PUT /api/team/orders/:orderId/fulfill\<close>: each of the three fields
  is absent, \<^verbatim>\<open>null\<close> or a string. (The handler does not validate the body; values
  of another JSON type are excluded by the field types.)
\<close>

record fulfill_body =
  fb_deliveryType :: "string js_field"
  fb_csvUrl :: "string js_field"
  fb_notes :: "string js_field"

text \<open>
  The handler rejects a falsy \<^verbatim>\<open>csvUrl\<close> first: an absent one, \<^verbatim>\<open>null\<close> and the
  empty string. It then updates, passing \<^verbatim>\<open>deliveryType\<close> and \<^verbatim>\<open>notes\<close> on as
  they are, and reads \<^verbatim>\<open>updatedOrder.userId\<close> of the returned row: when no row
  matched, that read throws a \<^verbatim>\<open>TypeError\<close>. The handler's \<^verbatim>\<open>catch\<close> answers that
  and a failed update with status 500.
\<close>

definition put_fulfill ::
  "database \<Rightarrow> string \<Rightarrow> fulfill_body \<Rightarrow> js_date \<Rightarrow> database \<times> order response" where
  "put_fulfill db orderId body now =
     (case fb_csvUrl body of
        Val csvUrl \<Rightarrow>
          if csvUrl = [] then (db, Status 400 ''CSV URL is required'')
          else
            (case fulfillOrder db orderId
                    \<lparr>fd_deliveryType = fb_deliveryType body, fd_csvUrl = csvUrl,
                     fd_notes = fb_notes body, fd_status = ''completed'', fd_completedAt = now\<rparr> of
               Inl e \<Rightarrow> (db, Status 500 ''Error fulfilling order: '')
             | Inr (db', None) \<Rightarrow> (db', Status 500 ''Error fulfilling order: '')
             | Inr (db', Some ord) \<Rightarrow> (db', Json ord))
      | _ \<Rightarrow> (db, Status 400 ''CSV URL is required''))"

section \<open>Storage: affiliate clicks, purchases and commissions\<close>

text \<open>
  \<^verbatim>\<open>trackAffiliateClick\<close> inserts one row. The column \<^verbatim>\<open>affiliate_code\<close> is declared
  \<^verbatim>\<open>.references(() => users.affiliateCode).notNull()\<close>: the database accepts the row
  only when some user holds the code. Absent optional arguments become \<^verbatim>\<open>NULL\<close>.
\<close>

definition trackAffiliateClick ::
  "database \<Rightarrow> string \<Rightarrow> string option \<Rightarrow> string option \<Rightarrow> string option \<Rightarrow> string \<Rightarrow> js_date
     \<Rightarrow> exn + database \<times> affiliate_click" where
  "trackAffiliateClick db affiliateCode ipAddress userAgent referrerUrl newId now =
     (if newId \<in> set (map click_id (affiliateClicks db)) then Inl UniqueViolation
      else if Some affiliateCode \<notin> set (map user_affiliateCode (users db))
      then Inl ForeignKeyViolation
      else
        (let click =
               \<lparr>click_id = newId, click_affiliateCode = affiliateCode,
                click_ipAddress = ipAddress, click_userAgent = userAgent,
                click_referrerUrl = referrerUrl, click_createdAt = Some now\<rparr>
         in Inr (db\<lparr>affiliateClicks := affiliateClicks db @ [click]\<rparr>, click)))"

text \<open>
  A \<^verbatim>\<open>decimal(10, 2)\<close> column rounds what it is given to two places, half away from
  zero, and rejects a value whose rounded magnitude reaches \<open>10 ^ 8\<close>.
\<close>

definition pg_decimal_10_2 :: "rat \<Rightarrow> exn + rat" where
  "pg_decimal_10_2 x =
     (let n = (if 0 \<le> x then \<lfloor>x * 100 + 1 / 2\<rfloor> else - \<lfloor>- x * 100 + 1 / 2\<rfloor>)
      in if 10 ^ 10 \<le> \<bar>n\<bar> then Inl NumericOutOfRange else Inr (of_int n / 100))"

text \<open>
  The argument of \<^verbatim>\<open>createCreditPurchase\<close>. The checkout webhook passes the id itself;
  the checkout routes leave it to the column default. The amount is the JavaScript number
  whose \<^verbatim>\<open>toString()\<close> the caller passes.
\<close>

record insert_credit_purchase =
  ip_id :: "string option"
  ip_userId :: string
  ip_amount :: rat
  ip_credits :: int
  ip_stripePaymentIntentId :: "string option"
  ip_status :: "string option"

definition createCreditPurchase ::
  "database \<Rightarrow> insert_credit_purchase \<Rightarrow> string \<Rightarrow> exn + database \<times> credit_purchase" where
  "createCreditPurchase db purchase newId =
     (let pid = (case ip_id purchase of None \<Rightarrow> newId | Some i \<Rightarrow> i)
      in if \<not> int4 (ip_credits purchase) then Inl NumericOutOfRange
         else if pid \<in> set (map purchase_id (creditPurchases db)) then Inl UniqueViolation
         else if ip_userId purchase \<notin> set (map user_id (users db)) then Inl ForeignKeyViolation
         else
           (case pg_decimal_10_2 (ip_amount purchase) of
              Inl e \<Rightarrow> Inl e
            | Inr amount \<Rightarrow>
                (let creditPurchase =
                       \<lparr>purchase_id = pid, purchase_userId = ip_userId purchase,
                        purchase_amount = amount, purchase_credits = ip_credits purchase,
                        purchase_stripePaymentIntentId = ip_stripePaymentIntentId purchase,
                        purchase_status =
                          (case ip_status purchase of None \<Rightarrow> Some ''pending''
                           | Some s \<Rightarrow> Some s)\<rparr>
                 in Inr (db\<lparr>creditPurchases := creditPurchases db @ [creditPurchase]\<rparr>,
                         creditPurchase))))"

definition updateCreditPurchaseStatus :: "database \<Rightarrow> string \<Rightarrow> string \<Rightarrow> database" where
  "updateCreditPurchaseStatus db pid status =
     db\<lparr>creditPurchases :=
          map (\<lambda>p. if purchase_id p = pid then p\<lparr>purchase_status := Some status\<rparr> else p)
            (creditPurchases db)\<rparr>"

text \<open>
  The argument of \<^verbatim>\<open>createAffiliateCommission\<close>. The two amounts are the JavaScript
  numbers whose \<^verbatim>\<open>toString()\<close> the caller passes; the columns store them rounded to
  two places. (\<^verbatim>\<open>toString\<close> prints the shortest decimal that reads back as the same
  number; for a number that is the nearest one to a decimal with two places, printing and
  then rounding to two places gives that decimal, and so does rounding the number itself.)
\<close>

record insert_affiliate_commission =
  ic_affiliateUserId :: string
  ic_referredUserId :: string
  ic_purchaseId :: string
  ic_saleAmount :: rat
  ic_commissionAmount :: rat
  ic_paymentMonth :: "string option"
  ic_status :: "string option"

definition createAffiliateCommission ::
  "database \<Rightarrow> insert_affiliate_commission \<Rightarrow> string \<Rightarrow> js_date
     \<Rightarrow> exn + database \<times> affiliate_commission" where
  "createAffiliateCommission db commission newId now =
     (if newId \<in> set (map commission_id (affiliateCommissions db)) then Inl UniqueViolation
      else if ic_affiliateUserId commission \<notin> set (map user_id (users db))
              \<or> ic_referredUserId commission \<notin> set (map user_id (users db))
              \<or> ic_purchaseId commission \<notin> set (map purchase_id (creditPurchases db))
      then Inl ForeignKeyViolation
      else
        (case (pg_decimal_10_2 (ic_saleAmount commission),
               pg_decimal_10_2 (ic_commissionAmount commission)) of
           (Inr sale, Inr comm) \<Rightarrow>
             (let newCommission =
                    \<lparr>commission_id = newId,
                     commission_affiliateUserId = ic_affiliateUserId commission,
                     commission_referredUserId = ic_referredUserId commission,
                     commission_purchaseId = ic_purchaseId commission,
                     commission_saleAmount = sale, commission_commissionAmount = comm,
                     commission_commissionRate = Some (15 / 100),
                     commission_status =
                       (case ic_status commission of None \<Rightarrow> Some ''pending'' | Some s \<Rightarrow> Some s),
                     commission_paymentMonth = ic_paymentMonth commission,
                     commission_paidAt = None, commission_createdAt = Some now\<rparr>
              in Inr (db\<lparr>affiliateCommissions := affiliateCommissions db @ [newCommission]\<rparr>,
                      newCommission))
         | _ \<Rightarrow> Inl NumericOutOfRange))"

text \<open>
  \<^verbatim>\<open>markCommissionsPaid\<close>: one \<^verbatim>\<open>UPDATE ... WHERE id IN (commissionIds)\<close>, with
  \<^verbatim>\<open>paidAt: new Date()\<close>.
\<close>

definition markCommissionsPaid ::
  "database \<Rightarrow> string list \<Rightarrow> string \<Rightarrow> js_date \<Rightarrow> database" where
  "markCommissionsPaid db commissionIds paymentMonth now =
     db\<lparr>affiliateCommissions :=
          map (\<lambda>c. if commission_id c \<in> set commissionIds
                    then c\<lparr>commission_status := Some ''paid'',
                           commission_paymentMonth := Some paymentMonth,
                           commission_paidAt := Some now\<rparr>
                    else c)
            (affiliateCommissions db)\<rparr>"

section \<open>Numbers and strings of the host language\<close>

text \<open>
  A JavaScript number is an IEEE 754 double. A finite double is modelled by its exact
  rational value; \<open>fl\<close> rounds a rational to the nearest double, ties to the even
  significand (53 bits; below \<open>2 powi (- 1022)\<close> the spacing stays \<open>2 powi (- 1074)\<close>). Overflow to
  infinity is not modelled: the amounts below are far from it. Multiplication and
  division are the exact operation followed by \<open>fl\<close>.
\<close>

definition round_half_even :: "rat \<Rightarrow> int" where
  "round_half_even y =
     (let f = \<lfloor>y\<rfloor>; r = y - of_int f
      in if r < 1 / 2 then f else if 1 / 2 < r then f + 1 else if even f then f else f + 1)"

text \<open>The exponent \<open>\<lfloor>log\<^sub>2 x\<rfloor>\<close> of a positive rational.\<close>

definition ilog2 :: "rat \<Rightarrow> int" where
  "ilog2 x = (if 1 \<le> x then bitlen \<lfloor>x\<rfloor> - 1 else - bitlen (\<lceil>1 / x\<rceil> - 1))"

definition fl :: "rat \<Rightarrow> rat" where
  "fl x =
     (if x = 0 then 0
      else (let e = max (ilog2 \<bar>x\<bar> - 52) (- 1074); u = 2 powi e
            in of_int (round_half_even (x / u)) * u))"

definition js_mul :: "rat \<Rightarrow> rat \<Rightarrow> rat" where
  "js_mul x y = fl (x * y)"

definition js_div :: "rat \<Rightarrow> rat \<Rightarrow> rat" where
  "js_div x y = fl (x / y)"

text \<open>\<^verbatim>\<open>Math.round\<close>: the nearest integer, a tie going up.\<close>

definition Math_round :: "rat \<Rightarrow> int" where
  "Math_round x = \<lfloor>x + 1 / 2\<rfloor>"

text \<open>
  \<^verbatim>\<open>parseInt(s)\<close> without a radix: leading white space is skipped, a sign is read, a
  prefix \<^verbatim>\<open>0x\<close> selects radix 16, and the longest prefix of digits is the value;
  \<open>None\<close> is \<^verbatim>\<open>NaN\<close>. The value is exact here (the source's is a double, exact below
  \<open>2 ^ 53\<close>).
\<close>

definition is_space :: "char \<Rightarrow> bool" where
  "is_space c = (of_char c \<in> {9, 10, 11, 12, 13, 32 :: nat})"

definition digit_value :: "char \<Rightarrow> nat option" where
  "digit_value c =
     (let n = of_char c :: nat
      in if 48 \<le> n \<and> n \<le> 57 then Some (n - 48)
         else if 97 \<le> n \<and> n \<le> 122 then Some (n - 87)
         else if 65 \<le> n \<and> n \<le> 90 then Some (n - 55)
         else None)"

definition parseInt :: "string \<Rightarrow> int option" where
  "parseInt s =
     (let s1 = dropWhile is_space s;
          (neg, s2) =
            (case s1 of
               [] \<Rightarrow> (False, [])
             | c # r \<Rightarrow> if c = CHR ''-'' then (True, r)
                        else if c = CHR ''+'' then (False, r) else (False, s1));
          (radix, s3) =
            (case s2 of
               a # b # r \<Rightarrow>
                 if a = CHR ''0'' \<and> (b = CHR ''x'' \<or> b = CHR ''X'') then (16, r)
                 else (10 :: nat, s2)
             | _ \<Rightarrow> (10, s2));
          ds = takeWhile (\<lambda>c. case digit_value c of None \<Rightarrow> False | Some d \<Rightarrow> d < radix) s3
      in if ds = [] then None
         else Some ((if neg then - 1 else 1)
                    * int (foldl (\<lambda>a c. a * radix + the (digit_value c)) 0 ds)))"

text \<open>The decimal digits of a natural number, as \<^verbatim>\<open>String(n)\<close> prints them.\<close>

definition digit_char :: "nat \<Rightarrow> char" where
  "digit_char d = char_of (48 + d)"

fun show_nat :: "nat \<Rightarrow> string" where
  "show_nat n = (if n < 10 then [digit_char n] else show_nat (n div 10) @ [digit_char (n mod 10)])"

declare show_nat.simps [simp del]

definition padStart :: "nat \<Rightarrow> char \<Rightarrow> string \<Rightarrow> string" where
  "padStart n c s = replicate (n - length s) c @ s"

text \<open>
  The month key that the webhook and the admin page both build:
  \<^verbatim>\<open>`${d.getFullYear()}-${String(d.getMonth() + 1).padStart(2, '0')}`\<close>.
\<close>

definition monthKey :: "js_date \<Rightarrow> string" where
  "monthKey d = show_nat (getFullYear d) @ ''-'' @ padStart 2 (CHR ''0'') (show_nat (getMonth d + 1))"

section \<open>Routes: referral links, registration, payout\<close>

text \<open>What the routes keep in the caller's session.\<close>

record session =
  sess_affiliateCode :: "string option"
  sess_affiliateAdminAuth :: bool

text \<open>
  \<^verbatim>\<open>GET /ref/:affiliateCode\<close>: when tracking throws, the \<^verbatim>\<open>catch\<close> redirects all the
  same, and the session is not given the code.
\<close>

definition get_ref ::
  "database \<Rightarrow> session \<Rightarrow> string \<Rightarrow> string option \<Rightarrow> string option \<Rightarrow> string option \<Rightarrow> string
     \<Rightarrow> js_date \<Rightarrow> database \<times> session \<times> unit response" where
  "get_ref db sess affiliateCode ipAddress userAgent referrerUrl newId now =
     (case trackAffiliateClick db affiliateCode ipAddress userAgent referrerUrl newId now of
        Inl e \<Rightarrow> (db, sess, Redirect ''/'')
      | Inr (db', click) \<Rightarrow> (db', sess\<lparr>sess_affiliateCode := Some affiliateCode\<rparr>, Redirect ''/''))"

record register_body =
  rb_email :: "string option"
  rb_password :: "string option"
  rb_firstName :: "string option"
  rb_lastName :: "string option"

text \<open>
  \<^verbatim>\<open>POST /api/register\<close>. The new id, built by the source from the clock and a random
  suffix, is a parameter. The password hash and the verification token are not stored in
  the model, and the verification email has no effect on it.
\<close>

definition post_register ::
  "database \<Rightarrow> session \<Rightarrow> register_body \<Rightarrow> string \<Rightarrow> database \<times> user response" where
  "post_register db sess body newId =
     (if \<not> truthy (rb_email body) \<or> \<not> truthy (rb_password body) \<or> \<not> truthy (rb_firstName body)
      then (db, Status 400 ''Email, password, and first name are required'')
      else
        (case getUserByEmail db (the (rb_email body)) of
           Some existingUser \<Rightarrow> (db, Status 400 ''User already exists with this email'')
         | None \<Rightarrow>
             (let referredBy =
                    (if truthy (sess_affiliateCode sess)
                     then (case getUserByAffiliateCode db (the (sess_affiliateCode sess)) of
                             None \<Rightarrow> None
                           | Some affiliateUser \<Rightarrow> Some (user_id affiliateUser))
                     else None)
              in case createUser db
                        \<lparr>user_id = newId, user_email = the (rb_email body),
                         user_credits = Some 0, user_affiliateCode = None,
                         user_referredBy = referredBy\<rparr> of
                   Inl e \<Rightarrow> (db, Status 500 ''Registration failed'')
                 | Inr (db', u) \<Rightarrow> (db', Json u))))"

record mark_paid_body =
  mp_commissionIds :: "string list option"
  mp_paymentMonth :: "string option"

text \<open>\<^verbatim>\<open>POST /api/team/affiliate/mark-paid\<close>.\<close>

definition post_mark_paid ::
  "database \<Rightarrow> session \<Rightarrow> mark_paid_body \<Rightarrow> js_date \<Rightarrow> database \<times> unit response" where
  "post_mark_paid db sess body now =
     (if \<not> sess_affiliateAdminAuth sess
      then (db, Status 401 ''Affiliate admin authentication required'')
      else
        (case mp_commissionIds body of
           None \<Rightarrow> (db, Status 400 ''Commission IDs and payment month are required'')
         | Some commissionIds \<Rightarrow>
             if \<not> truthy (mp_paymentMonth body)
             then (db, Status 400 ''Commission IDs and payment month are required'')
             else (markCommissionsPaid db commissionIds (the (mp_paymentMonth body)) now,
                   Json ())))"

section \<open>The checkout route\<close>

text \<open>
  \<^verbatim>\<open>CREDIT_PACKAGES\<close> of \<^verbatim>\<open>routes.ts\<close>: the package id, the credits and the price.
\<close>

definition CREDIT_PACKAGES :: "(string \<times> int \<times> rat) list" where
  "CREDIT_PACKAGES =
     [(''5000'', 5000, 10), (''10000'', 10000, 19), (''50000'', 50000, 90),
      (''100000'', 100000, 170), (''500000'', 500000, 750), (''1000000'', 1000000, 1400)]"

text \<open>
  \<^verbatim>\<open>unit_amount: Math.round(packageInfo.price * 100)\<close>, the price in cents of the single
  line item (quantity 1) with which \<^verbatim>\<open>POST /api/create-checkout-session\<close> creates a
  session.
\<close>

definition unit_amount :: "rat \<Rightarrow> int" where
  "unit_amount price = Math_round (js_mul price 100)"

section \<open>The payment-completion webhook\<close>

text \<open>
  The \<^verbatim>\<open>checkout.session.completed\<close> event object, after the signature check:
  its id, its metadata and the amount charged in minor units.
\<close>

record stripe_metadata =
  md_userId :: "string option"
  md_credits :: "string option"

record checkout_session =
  cs_id :: string
  cs_metadata :: "stripe_metadata option"
  cs_amount_total :: "nat option"

text \<open>
  The sessions of the catalogue. The webhook handles only events that carry the payment
  provider's signature, and the route above is the only place that creates checkout
  sessions, each for one package: the amount such a session charges is the
  \<open>unit_amount\<close> of that package's price.
\<close>

definition catalogue_session :: "checkout_session \<Rightarrow> bool" where
  "catalogue_session s =
     (\<exists>p \<in> set CREDIT_PACKAGES. cs_amount_total s = Some (nat (unit_amount (snd (snd p)))))"

text \<open>\<^verbatim>\<open>(session.amount_total || 0) / 100\<close>.\<close>

definition amountPaid :: "checkout_session \<Rightarrow> rat" where
  "amountPaid s = js_div (fl (of_nat (case cs_amount_total s of None \<Rightarrow> 0 | Some a \<Rightarrow> a))) 100"

text \<open>\<^verbatim>\<open>Math.round(amountPaid * 0.15 * 100) / 100\<close>.\<close>

definition commissionAmount :: "rat \<Rightarrow> rat" where
  "commissionAmount paid =
     js_div (of_int (Math_round (js_mul (js_mul paid (fl (15 / 100))) 100))) 100"

text \<open>
  The branch of \<^verbatim>\<open>POST /api/stripe-webhook\<close> for \<^verbatim>\<open>checkout.session.completed\<close>.
  The answer is \<^verbatim>\<open>{ received: true }\<close> on every path, so the model returns the database
  only. An exception in the outer \<^verbatim>\<open>try\<close> (from \<^verbatim>\<open>addCredits\<close>, or from reading
  a field of a missing row) is logged and ends the handler; one from
  \<^verbatim>\<open>createCreditPurchase\<close> or from \<^verbatim>\<open>createAffiliateCommission\<close> is logged and the
  handler goes on. \<open>newId\<close> is the id the database gives the commission row, \<open>now\<close>
  the clock. The confirmation email has no effect on the database.
\<close>

definition checkout_session_completed ::
  "database \<Rightarrow> checkout_session \<Rightarrow> string \<Rightarrow> js_date \<Rightarrow> database" where
  "checkout_session_completed db s newId now =
     (case cs_metadata s of
        None \<Rightarrow> db
      | Some md \<Rightarrow>
          if \<not> truthy (md_userId md) \<or> \<not> truthy (md_credits md) then db
          else
            (let userId = the (md_userId md); credits = the (md_credits md)
             in case getUser db userId of
                  None \<Rightarrow> db
                | Some existingUser \<Rightarrow>
                    (case parseInt credits of
                       None \<Rightarrow> db
                     | Some n \<Rightarrow>
                         (case addCredits db userId n of
                            Inl e \<Rightarrow> db
                          | Inr (db1, None) \<Rightarrow> db1
                          | Inr (db1, Some updatedUser) \<Rightarrow>
                              (let (db2, purchaseId) =
                                     (case createCreditPurchase db1
                                             \<lparr>ip_id = Some (cs_id s), ip_userId = userId,
                                              ip_amount = amountPaid s, ip_credits = n,
                                              ip_stripePaymentIntentId = None,
                                              ip_status = Some ''completed''\<rparr> (cs_id s) of
                                        Inl e \<Rightarrow> (db1, cs_id s)
                                      | Inr (d, purchase) \<Rightarrow> (d, purchase_id purchase))
                               in if truthy (user_referredBy updatedUser)
                                  then
                                    (case createAffiliateCommission db2
                                            \<lparr>ic_affiliateUserId = the (user_referredBy updatedUser),
                                             ic_referredUserId = user_id updatedUser,
                                             ic_purchaseId = purchaseId,
                                             ic_saleAmount = amountPaid s,
                                             ic_commissionAmount = commissionAmount (amountPaid s),
                                             ic_paymentMonth = Some (monthKey now),
                                             ic_status = Some ''pending''\<rparr> newId now of
                                       Inl e \<Rightarrow> db2
                                     | Inr (d, c) \<Rightarrow> d)
                                  else db2)))))"

section \<open>Reachable databases\<close>

text \<open>
  Every write of the server goes through one of the operations below, starting from empty
  tables: the checkout routes insert a pending purchase; the credit routes and the
  payment-intent webhook call \<^verbatim>\<open>addCredits\<close> and \<^verbatim>\<open>updateCreditPurchaseStatus\<close>;
  the other routes are the handlers modelled above. Writes to columns that the model
  leaves out are no steps.
\<close>

inductive reachable :: "database \<Rightarrow> bool" where
  r_empty: "reachable empty_database"
| r_register: "reachable db \<Longrightarrow> reachable (fst (post_register db sess body newId))"
| r_generateAffiliateCode:
    "reachable db \<Longrightarrow> generateAffiliateCode db userId code = Inr (db', u) \<Longrightarrow> reachable db'"
| r_ref:
    "reachable db \<Longrightarrow> reachable (fst (get_ref db sess code ip ua ref newId now))"
| r_createCreditPurchase:
    "reachable db \<Longrightarrow> createCreditPurchase db purchase newId = Inr (db', p) \<Longrightarrow> reachable db'"
| r_updateCreditPurchaseStatus:
    "reachable db \<Longrightarrow> reachable (updateCreditPurchaseStatus db pid status)"
| r_addCredits: "reachable db \<Longrightarrow> addCredits db userId n = Inr (db', u) \<Longrightarrow> reachable db'"
| r_checkout: "reachable db \<Longrightarrow> reachable (checkout_session_completed db s newId now)"
| r_orders: "reachable db \<Longrightarrow> reachable (fst (post_orders bounds db userId ob newId now))"
| r_fulfill: "reachable db \<Longrightarrow> reachable (fst (put_fulfill db orderId fb now))"
| r_mark_paid: "reachable db \<Longrightarrow> reachable (fst (post_mark_paid db sess mb now))"

section \<open>A small database for the examples\<close>

definition demo_date :: js_date where
  "demo_date = \<lparr>getFullYear = 2025, getMonth = 5, getTime = 1750000000000\<rparr>"

definition alice :: user where
  "alice = \<lparr>user_id = ''user_1'', user_email = ''alice@example.com'', user_credits = Some 5000,
            user_affiliateCode = Some ''ABC123'', user_referredBy = None\<rparr>"

definition bob :: user where
  "bob = \<lparr>user_id = ''user_2'', user_email = ''bob@example.com'', user_credits = Some 10000,
          user_affiliateCode = None, user_referredBy = Some ''user_1''\<rparr>"

definition demo_order :: order where
  "demo_order =
     \<lparr>order_id = ''order_1'', order_userId = ''user_1'', order_apolloUrl = ''https://app.apollo.io/#/people'',
      order_creditsUsed = 1000, order_estimatedLeads = Some 1000,
      order_deliveryEmail = ''alice@example.com'', order_status = Some ''completed'',
      order_csvUrl = Some ''https://files.example.com/old.csv'', order_deliveryType = Some ''csv_file'',
      order_notes = Some ''first delivery'', order_assignedTo = None, order_errorMessage = None,
      order_createdAt = Some demo_date, order_completedAt = Some demo_date\<rparr>"

definition demo_purchase :: credit_purchase where
  "demo_purchase =
     \<lparr>purchase_id = ''cs_test_1'', purchase_userId = ''user_2'', purchase_amount = 19,
      purchase_credits = 10000, purchase_stripePaymentIntentId = None,
      purchase_status = Some ''completed''\<rparr>"

definition demo_commission :: affiliate_commission where
  "demo_commission =
     \<lparr>commission_id = ''comm_1'', commission_affiliateUserId = ''user_1'',
      commission_referredUserId = ''user_2'', commission_purchaseId = ''cs_test_1'',
      commission_saleAmount = 19, commission_commissionAmount = 285 / 100,
      commission_commissionRate = Some (15 / 100), commission_status = Some ''pending'',
      commission_paymentMonth = Some ''2025-06'', commission_paidAt = None,
      commission_createdAt = Some demo_date\<rparr>"

definition demo_db :: database where
  "demo_db = \<lparr>users = [alice, bob], creditPurchases = [demo_purchase], orders = [demo_order],
               affiliateClicks = [], affiliateCommissions = [demo_commission]\<rparr>"

definition demo_session :: checkout_session where
  "demo_session =
     \<lparr>cs_id = ''cs_test_1'',
      cs_metadata = Some \<lparr>md_userId = Some ''user_2'', md_credits = Some ''10000''\<rparr>,
      cs_amount_total = Some 1900\<rparr>"

definition referral_db :: database where
  "referral_db =
     \<lparr>users = [alice\<lparr>user_credits := Some 0\<rparr>, bob\<lparr>user_credits := Some 0\<rparr>],
      creditPurchases = [], orders = [], affiliateClicks = [], affiliateCommissions = []\<rparr>"

definition demo_order_body :: "int \<Rightarrow> order_body" where
  "demo_order_body n =
     \<lparr>ob_apolloUrl = Some ''https://app.apollo.io/#/people'', ob_creditsUsed = Some n,
      ob_estimatedLeads = None, ob_deliveryEmail = Some ''alice@example.com'',
      ob_status = Undefined,
      ob_csvUrl = None, ob_deliveryType = None, ob_notes = None, ob_assignedTo = None,
      ob_errorMessage = None\<rparr>"


definition demo_fulfill_body :: fulfill_body where
  "demo_fulfill_body =
     \<lparr>fb_deliveryType = Val ''google_sheets'',
      fb_csvUrl = Val ''https://docs.example.com/sheet'', fb_notes = Val ''second delivery''\<rparr>"

section \<open>Order creation and the credit balance\<close>

lemma find_map_upd:
  assumes "\<And>x. P (f x) = P x"
  shows "find P (map f xs) = map_option f (find P xs)"
  using assms by (induction xs) auto



lemma deductCredits_Inr:
  assumes "deductCredits db uid n = Inr (db1, u1)"
  shows "db1 = db\<lparr>users := map (\<lambda>u. if user_id u = uid
                 then u\<lparr>user_credits := map_option (\<lambda>c. c - n) (user_credits u)\<rparr> else u) (users db)\<rparr>"
    and "u1 = getUser db1 uid"
  using assms by (auto simp: deductCredits_def Let_def split: if_splits)

lemma deductCredits_tables:
  assumes "deductCredits db uid n = Inr (db1, u1)"
  shows "orders db1 = orders db"
    and "affiliateCommissions db1 = affiliateCommissions db"
    and "map user_id (users db1) = map user_id (users db)"
    and "map user_referredBy (users db1) = map user_referredBy (users db)"
    and "getUser db1 uid' =
           map_option (\<lambda>u. if user_id u = uid
                            then u\<lparr>user_credits := map_option (\<lambda>c. c - n) (user_credits u)\<rparr> else u)
             (getUser db uid')"
  unfolding deductCredits_Inr(1)[OF assms] getUser_def
  by (simp_all add: comp_def find_map_upd)






text \<open>
  Two requests that the database refuses. A NUL character in \<^verbatim>\<open>apolloUrl\<close>: the debit
  is made, the insert fails, the answer is status 500 and the debit stays (the handler
  runs the two statements without a transaction). A negative \<^verbatim>\<open>creditsUsed\<close> on a
  balance near the 32-bit maximum: the debit itself fails and nothing is written.
\<close>

lemma post_orders_database_errors:
  "post_orders True demo_db ''user_1'' ((demo_order_body 3000)\<lparr>ob_apolloUrl := Some [CHR 0x00]\<rparr>)
       ''order_2'' demo_date
     = (demo_db\<lparr>users := [alice\<lparr>user_credits := Some 2000\<rparr>, bob]\<rparr>,
        Status 500 ''Error creating order: '')"
  "post_orders bounds (demo_db\<lparr>users := [alice\<lparr>user_credits := Some 2147483000\<rparr>, bob]\<rparr>) ''user_1''
       (demo_order_body (- 1000)) ''order_2'' demo_date
     = (demo_db\<lparr>users := [alice\<lparr>user_credits := Some 2147483000\<rparr>, bob]\<rparr>,
        Status 500 ''Error creating order: '')"
  by (simp_all add: post_orders_def insertOrderSchema_parse_def demo_order_body_def getUser_def
      demo_db_def alice_def bob_def deductCredits_def createOrder_def order_texts_ok_def
      pg_text_def pg_text_opt_def pg_text_field_def int4_def Let_def)

section \<open>Fulfilment\<close>

lemma find_key_map:
  assumes "\<And>r. key (f r) = key r" and "\<And>r. key r = k \<Longrightarrow> f r = g r"
  shows "find (\<lambda>r. key r = k) (map f xs) = map_option g (find (\<lambda>r. key r = k) xs)"
  using assms by (induction xs) auto

lemma fulfillOrder_result:
  "(\<exists>r. fulfillOrder db oid fd = Inr r)
     = (pg_text oid \<and> pg_text (fd_csvUrl fd) \<and> pg_text_field (fd_deliveryType fd)
        \<and> pg_text_field (fd_notes fd) \<and> pg_text (fd_status fd))"
  by (simp add: fulfillOrder_def Let_def)

lemma fulfillOrder_Inr:
  assumes "fulfillOrder db oid fd = Inr (db', r)"
  shows "r = getOrderById db' oid"
    and "getOrderById db' oid =
           map_option (\<lambda>r. r\<lparr>order_csvUrl := Some (fd_csvUrl fd),
                         order_deliveryType := set_column (fd_deliveryType fd) (order_deliveryType r),
                         order_notes := set_column (fd_notes fd) (order_notes r),
                         order_status := Some (fd_status fd),
                         order_completedAt := Some (fd_completedAt fd)\<rparr>)
             (getOrderById db oid)"
    and "users db' = users db" and "affiliateCommissions db' = affiliateCommissions db"
proof -
  have d: "db' = db\<lparr>orders := map (\<lambda>r. if order_id r = oid
                 then r\<lparr>order_csvUrl := Some (fd_csvUrl fd),
                        order_deliveryType := set_column (fd_deliveryType fd) (order_deliveryType r),
                        order_notes := set_column (fd_notes fd) (order_notes r),
                        order_status := Some (fd_status fd),
                        order_completedAt := Some (fd_completedAt fd)\<rparr>
                 else r) (orders db)\<rparr>"
    and r: "r = getOrderById db' oid"
    using assms by (auto simp: fulfillOrder_def Let_def split: if_splits)
  show "r = getOrderById db' oid" by (rule r)
  show "getOrderById db' oid =
           map_option (\<lambda>r. r\<lparr>order_csvUrl := Some (fd_csvUrl fd),
                         order_deliveryType := set_column (fd_deliveryType fd) (order_deliveryType r),
                         order_notes := set_column (fd_notes fd) (order_notes r),
                         order_status := Some (fd_status fd),
                         order_completedAt := Some (fd_completedAt fd)\<rparr>)
             (getOrderById db oid)"
    unfolding d getOrderById_def by (simp, rule find_key_map) auto
  show "users db' = users db" "affiliateCommissions db' = affiliateCommissions db"
    unfolding d by simp_all
qed

lemma fulfillOrder_unknown:
  assumes "getOrderById db oid = None" and "fulfillOrder db oid fd = Inr (db', r)"
  shows "db' = db \<and> r = None"
proof -
  from assms(1) have "\<forall>r \<in> set (orders db). order_id r \<noteq> oid"
    by (auto simp: getOrderById_def find_None_iff)
  then have "map (\<lambda>r. if order_id r = oid then f r else r) (orders db) = orders db" for f
    by (induction "orders db") (auto simp: map_idI)
  then show ?thesis using assms by (auto simp: fulfillOrder_def Let_def split: if_splits)
qed

lemma put_fulfill_unknown:
  assumes "getOrderById db oid = None" and "fb_csvUrl body = Val url" and "url \<noteq> []"
  shows "put_fulfill db oid body now = (db, Status 500 ''Error fulfilling order: '')"
proof -
  let ?fd = "\<lparr>fd_deliveryType = fb_deliveryType body, fd_csvUrl = url,
              fd_notes = fb_notes body, fd_status = ''completed'', fd_completedAt = now\<rparr>"
  show ?thesis
  proof (cases "fulfillOrder db oid ?fd")
    case (Inl e)
    then show ?thesis using assms by (simp add: put_fulfill_def)
  next
    case (Inr p)
    obtain db' r where p: "p = (db', r)" by (cases p)
    from fulfillOrder_unknown[OF assms(1) Inr[unfolded p]] Inr p assms
    show ?thesis by (simp add: put_fulfill_def)
  qed
qed

text \<open>
  C7. The failing input: a fulfil request with a delivery URL for an order id that no row
  has. The update matches nothing, the handler then reads a field of the missing row, and
  its \<^verbatim>\<open>catch\<close> answers with status 500, not with a not-found answer. The database
  is unchanged.
\<close>

theorem put_fulfill_unknown_order_500:
  "put_fulfill demo_db ''order_404'' demo_fulfill_body demo_date
     = (demo_db, Status 500 ''Error fulfilling order: '')"
proof -
  have "getOrderById demo_db ''order_404'' = None"
    by (simp add: getOrderById_def demo_db_def demo_order_def)
  moreover have "fb_csvUrl demo_fulfill_body = Val ''https://docs.example.com/sheet''"
    "''https://docs.example.com/sheet'' \<noteq> []"
    by (simp_all add: demo_fulfill_body_def)
  ultimately show ?thesis by (rule put_fulfill_unknown)
qed

text \<open>The texts of a fulfil request that become parameters of the update.\<close>

definition fulfil_texts_ok :: "string \<Rightarrow> fulfill_body \<Rightarrow> bool" where
  "fulfil_texts_ok orderId body =
     (pg_text orderId \<and> pg_text_field (fb_csvUrl body) \<and> pg_text_field (fb_deliveryType body)
      \<and> pg_text_field (fb_notes body))"

lemma pg_text_completed [simp]: "pg_text ''completed''"
  by (simp add: pg_text_def)

lemma put_fulfill_existing:
  assumes ex: "getOrderById db oid = Some old"
    and url: "fb_csvUrl body = Val url" "url \<noteq> []"
  shows "(fulfil_texts_ok oid body \<longrightarrow>
            (\<exists>db'. put_fulfill db oid body now =
                (db', Json (old\<lparr>order_csvUrl := Some url,
                       order_deliveryType := set_column (fb_deliveryType body) (order_deliveryType old),
                       order_notes := set_column (fb_notes body) (order_notes old),
                       order_status := Some ''completed'', order_completedAt := Some now\<rparr>))
              \<and> getOrderById db' oid =
                  Some (old\<lparr>order_csvUrl := Some url,
                       order_deliveryType := set_column (fb_deliveryType body) (order_deliveryType old),
                       order_notes := set_column (fb_notes body) (order_notes old),
                       order_status := Some ''completed'', order_completedAt := Some now\<rparr>)))
       \<and> (\<not> fulfil_texts_ok oid body \<longrightarrow>
            put_fulfill db oid body now = (db, Status 500 ''Error fulfilling order: ''))"
proof -
  let ?fd = "\<lparr>fd_deliveryType = fb_deliveryType body, fd_csvUrl = url,
              fd_notes = fb_notes body, fd_status = ''completed'', fd_completedAt = now\<rparr>"
  let ?new = "old\<lparr>order_csvUrl := Some url,
                  order_deliveryType := set_column (fb_deliveryType body) (order_deliveryType old),
                  order_notes := set_column (fb_notes body) (order_notes old),
                  order_status := Some ''completed'', order_completedAt := Some now\<rparr>"
  have ok: "(\<exists>r. fulfillOrder db oid ?fd = Inr r) = fulfil_texts_ok oid body"
    unfolding fulfillOrder_result using url by (simp add: fulfil_texts_ok_def pg_text_field_def)
  show ?thesis
  proof (cases "fulfillOrder db oid ?fd")
    case (Inl e)
    then have "\<not> fulfil_texts_ok oid body" using ok by auto
    moreover have "put_fulfill db oid body now = (db, Status 500 ''Error fulfilling order: '')"
      using Inl url by (simp add: put_fulfill_def)
    ultimately show ?thesis by simp
  next
    case (Inr p)
    obtain db' r where p: "p = (db', r)" by (cases p)
    note f = fulfillOrder_Inr(1,2)[OF Inr[unfolded p]]
    have g: "getOrderById db' oid = Some ?new" using f(2) ex by simp
    have "put_fulfill db oid body now = (db', Json ?new)"
      using Inr p f(1) g url by (simp add: put_fulfill_def)
    moreover have "fulfil_texts_ok oid body" using ok Inr by auto
    ultimately show ?thesis using g by blast
  qed
qed

text \<open>
  C10, as the code has it. Fulfilment does not look at the order's current state. For any
  existing order, whatever its status and whatever delivery it already records, a request
  with a non-empty URL whose texts the database accepts is answered with the order in
  which \<^verbatim>\<open>csvUrl\<close> and \<^verbatim>\<open>completedAt\<close> are overwritten and the status is
  \<^verbatim>\<open>completed\<close>, and that is the row stored. \<^verbatim>\<open>deliveryType\<close> and \<^verbatim>\<open>notes\<close> are
  overwritten by a string of the request, cleared by \<^verbatim>\<open>null\<close>, and left as stored when
  the request does not carry the field. When a text of the request contains NUL the
  update fails: the answer is status 500 and nothing is written.
\<close>

theorem put_fulfill_any_status:
  assumes ex: "getOrderById db oid = Some old"
    and url: "fb_csvUrl body = Val url" "url \<noteq> []"
  shows "(fulfil_texts_ok oid body \<longrightarrow>
            (\<exists>db'. put_fulfill db oid body now =
                (db', Json (old\<lparr>order_csvUrl := Some url,
                       order_deliveryType := set_column (fb_deliveryType body) (order_deliveryType old),
                       order_notes := set_column (fb_notes body) (order_notes old),
                       order_status := Some ''completed'', order_completedAt := Some now\<rparr>))
              \<and> getOrderById db' oid =
                  Some (old\<lparr>order_csvUrl := Some url,
                       order_deliveryType := set_column (fb_deliveryType body) (order_deliveryType old),
                       order_notes := set_column (fb_notes body) (order_notes old),
                       order_status := Some ''completed'', order_completedAt := Some now\<rparr>)))
       \<and> (\<not> fulfil_texts_ok oid body \<longrightarrow>
            put_fulfill db oid body now = (db, Status 500 ''Error fulfilling order: ''))"
  using assms by (rule put_fulfill_existing)

theorem put_fulfill_any_status_witness:
  "order_status demo_order = Some ''completed''
   \<and> order_csvUrl demo_order = Some ''https://files.example.com/old.csv''
   \<and> (\<exists>db'. put_fulfill demo_db ''order_1'' demo_fulfill_body (demo_date\<lparr>getTime := 1760000000000\<rparr>) =
           (db', Json (demo_order\<lparr>order_csvUrl := Some ''https://docs.example.com/sheet'',
                                  order_deliveryType := Some ''google_sheets'',
                                  order_notes := Some ''second delivery'',
                                  order_status := Some ''completed'',
                                  order_completedAt := Some (demo_date\<lparr>getTime := 1760000000000\<rparr>)\<rparr>)))
   \<and> put_fulfill demo_db ''order_1''
        (demo_fulfill_body\<lparr>fb_deliveryType := Null, fb_notes := Val [CHR 0x00]\<rparr>) demo_date
       = (demo_db, Status 500 ''Error fulfilling order: '')"
proof -
  have ex: "getOrderById demo_db ''order_1'' = Some demo_order"
    by (simp add: getOrderById_def demo_db_def demo_order_def)
  have b: "fb_csvUrl demo_fulfill_body = Val ''https://docs.example.com/sheet''"
    "''https://docs.example.com/sheet'' \<noteq> []"
    and b': "fb_csvUrl (demo_fulfill_body\<lparr>fb_deliveryType := Null, fb_notes := Val [CHR 0x00]\<rparr>)
        = Val ''https://docs.example.com/sheet''"
    by (simp_all add: demo_fulfill_body_def)
  have ok: "fulfil_texts_ok ''order_1'' demo_fulfill_body"
    "\<not> fulfil_texts_ok ''order_1''
         (demo_fulfill_body\<lparr>fb_deliveryType := Null, fb_notes := Val [CHR 0x00]\<rparr>)"
    by (simp_all add: fulfil_texts_ok_def demo_fulfill_body_def pg_text_def pg_text_field_def)
  from put_fulfill_any_status [OF ex b, of "demo_date\<lparr>getTime := 1760000000000\<rparr>"]
    put_fulfill_any_status [OF ex b' b(2), of demo_date] ok
  show ?thesis by (auto simp: demo_order_def demo_fulfill_body_def set_column_def)
qed

text \<open>
  C10 as stated fails: the example order is completed and records the delivery type
  \<^verbatim>\<open>csv_file\<close> and the notes \<^verbatim>\<open>first delivery\<close>; fulfilling it again with a request
  that carries only a URL replaces the URL and the completion time and keeps the recorded
  delivery type and notes.
\<close>

theorem put_fulfill_url_only_counterexample:
  "snd (put_fulfill demo_db ''order_1''
          \<lparr>fb_deliveryType = Undefined, fb_csvUrl = Val ''https://docs.example.com/sheet'',
           fb_notes = Undefined\<rparr> (demo_date\<lparr>getTime := 1760000000000\<rparr>))
     = Json (demo_order\<lparr>order_csvUrl := Some ''https://docs.example.com/sheet'',
                        order_completedAt := Some (demo_date\<lparr>getTime := 1760000000000\<rparr>)\<rparr>)
   \<and> order_deliveryType demo_order = Some ''csv_file''
   \<and> order_notes demo_order = Some ''first delivery''
   \<and> order_status demo_order = Some ''completed''"
proof -
  let ?body = "\<lparr>fb_deliveryType = Undefined, fb_csvUrl = Val ''https://docs.example.com/sheet'',
               fb_notes = Undefined\<rparr>"
  have ex: "getOrderById demo_db ''order_1'' = Some demo_order"
    by (simp add: getOrderById_def demo_db_def demo_order_def)
  have ok: "fulfil_texts_ok ''order_1'' ?body"
    by (simp add: fulfil_texts_ok_def pg_text_def pg_text_field_def)
  from put_fulfill_existing [OF ex, of ?body "''https://docs.example.com/sheet''"
      "demo_date\<lparr>getTime := 1760000000000\<rparr>"] ok
  show ?thesis by (auto simp: demo_order_def set_column_def)
qed

section \<open>Referral clicks\<close>

text \<open>
  C8, as the code has it. With a fresh row id, tracking a click succeeds exactly for a
  code that some user holds: then one row is appended that records the code, the IP
  address, the user agent and the referrer. For a code that no user holds, the foreign key
  of \<^verbatim>\<open>affiliate_clicks.affiliate_code\<close> rejects the insert: the storage call throws,
  no row is written, and the route redirects without storing the code in the session.
\<close>

theorem trackAffiliateClick_foreign_key:
  assumes fresh: "newId \<notin> set (map click_id (affiliateClicks db))"
  shows "(Some code \<in> set (map user_affiliateCode (users db)) \<longrightarrow>
           (\<exists>click. trackAffiliateClick db code ip ua ref newId now
                      = Inr (db\<lparr>affiliateClicks := affiliateClicks db @ [click]\<rparr>, click)
                 \<and> click_affiliateCode click = code \<and> click_ipAddress click = ip
                 \<and> click_userAgent click = ua \<and> click_referrerUrl click = ref))
       \<and> (Some code \<notin> set (map user_affiliateCode (users db)) \<longrightarrow>
           trackAffiliateClick db code ip ua ref newId now = Inl ForeignKeyViolation
           \<and> get_ref db sess code ip ua ref newId now = (db, sess, Redirect ''/''))"
  using fresh by (simp add: trackAffiliateClick_def get_ref_def Let_def)

theorem trackAffiliateClick_foreign_key_witness:
  "(\<exists>click. trackAffiliateClick demo_db ''ABC123'' (Some ''203.0.113.7'') (Some ''Mozilla/5.0'') None
       ''click_1'' demo_date
       = Inr (demo_db\<lparr>affiliateClicks := affiliateClicks demo_db @ [click]\<rparr>, click)
      \<and> click_affiliateCode click = ''ABC123'' \<and> click_ipAddress click = Some ''203.0.113.7''
      \<and> click_userAgent click = Some ''Mozilla/5.0'' \<and> click_referrerUrl click = None)
   \<and> trackAffiliateClick demo_db ''ZZZ999'' None None None ''click_1'' demo_date
       = Inl ForeignKeyViolation"
proof -
  have fresh: "''click_1'' \<notin> set (map click_id (affiliateClicks demo_db))"
    by (simp add: demo_db_def)
  have k: "Some ''ABC123'' \<in> set (map user_affiliateCode (users demo_db))"
    by (simp add: demo_db_def alice_def)
  have n: "Some ''ZZZ999'' \<notin> set (map user_affiliateCode (users demo_db))"
    by (simp add: demo_db_def alice_def bob_def)
  from trackAffiliateClick_foreign_key [OF fresh, of "''ABC123''"] k
    trackAffiliateClick_foreign_key [OF fresh, of "''ZZZ999''"] n
  show ?thesis by blast
qed

text \<open>
  C8 as stated fails: the code \<^verbatim>\<open>ZZZ999\<close> belongs to no user of the example database,
  and tracking it throws and leaves the database as it was.
\<close>

theorem trackAffiliateClick_unknown_code_counterexample:
  "trackAffiliateClick demo_db ''ZZZ999'' (Some ''203.0.113.7'') (Some ''Mozilla/5.0'') None
       ''click_1'' demo_date = Inl ForeignKeyViolation
   \<and> fst (get_ref demo_db \<lparr>sess_affiliateCode = None, sess_affiliateAdminAuth = False\<rparr>
            ''ZZZ999'' (Some ''203.0.113.7'') (Some ''Mozilla/5.0'') None ''click_1'' demo_date)
       = demo_db"
  by (simp add: trackAffiliateClick_def get_ref_def demo_db_def alice_def bob_def)

section \<open>Marking commissions paid\<close>

lemma markCommissionsPaid_twice:
  "markCommissionsPaid (markCommissionsPaid db ids m1 t1) ids m2 t2 = markCommissionsPaid db ids m2 t2"
  by (simp add: markCommissionsPaid_def comp_def cong: map_cong)

text \<open>
  C9. After one run every commission whose id is in the list is \<^verbatim>\<open>paid\<close> with the
  month and time of that run; after a second run with the same ids it is \<^verbatim>\<open>paid\<close>
  with the month and time of the second run; the rows are the same rows; and the two runs
  together leave the database that the second run alone would leave.
\<close>

theorem markCommissionsPaid_idempotent:
  "(\<forall>c \<in> set (affiliateCommissions (markCommissionsPaid db ids m1 t1)).
      commission_id c \<in> set ids \<longrightarrow>
        commission_status c = Some ''paid'' \<and> commission_paymentMonth c = Some m1
        \<and> commission_paidAt c = Some t1)
   \<and> (\<forall>c \<in> set (affiliateCommissions (markCommissionsPaid (markCommissionsPaid db ids m1 t1) ids m2 t2)).
      commission_id c \<in> set ids \<longrightarrow>
        commission_status c = Some ''paid'' \<and> commission_paymentMonth c = Some m2
        \<and> commission_paidAt c = Some t2)
   \<and> map commission_id
        (affiliateCommissions (markCommissionsPaid (markCommissionsPaid db ids m1 t1) ids m2 t2))
      = map commission_id (affiliateCommissions db)
   \<and> markCommissionsPaid (markCommissionsPaid db ids m1 t1) ids m2 t2
      = markCommissionsPaid db ids m2 t2"
proof -
  have a: "\<forall>c \<in> set (affiliateCommissions (markCommissionsPaid d ids m t)).
      commission_id c \<in> set ids \<longrightarrow>
        commission_status c = Some ''paid'' \<and> commission_paymentMonth c = Some m
        \<and> commission_paidAt c = Some t" for d m t
    by (auto simp: markCommissionsPaid_def)
  have b: "map commission_id (affiliateCommissions (markCommissionsPaid d ids m t))
      = map commission_id (affiliateCommissions d)" for d m t
    by (simp add: markCommissionsPaid_def comp_def cong: map_cong)
  show ?thesis using a b markCommissionsPaid_twice by simp
qed

theorem markCommissionsPaid_idempotent_witness:
  "affiliateCommissions
     (markCommissionsPaid (markCommissionsPaid demo_db [''comm_1''] ''2025-06'' demo_date)
        [''comm_1''] ''2025-07'' (demo_date\<lparr>getMonth := 6\<rparr>))
   = [demo_commission\<lparr>commission_status := Some ''paid'',
                       commission_paymentMonth := Some ''2025-07'',
                       commission_paidAt := Some (demo_date\<lparr>getMonth := 6\<rparr>)\<rparr>]"
  using markCommissionsPaid_idempotent
    [of demo_db "[''comm_1'']" "''2025-06''" demo_date "''2025-07''" "demo_date\<lparr>getMonth := 6\<rparr>"]
  by (simp add: markCommissionsPaid_def demo_db_def demo_commission_def)

section \<open>Purchase completion\<close>

lemma createCreditPurchase_Inr:
  assumes "createCreditPurchase db p nid = Inr (d, x)"
  shows "d = db\<lparr>creditPurchases := creditPurchases db @ [x]\<rparr>"
  using assms by (auto simp: createCreditPurchase_def Let_def split: if_splits sum.splits)

lemma createAffiliateCommission_Inr:
  assumes "createAffiliateCommission db ic nid now = Inr (d, c)"
  shows "d = db\<lparr>affiliateCommissions := affiliateCommissions db @ [c]\<rparr>
       \<and> commission_id c = nid
       \<and> commission_affiliateUserId c = ic_affiliateUserId ic
       \<and> commission_referredUserId c = ic_referredUserId ic
       \<and> commission_purchaseId c = ic_purchaseId ic
       \<and> pg_decimal_10_2 (ic_saleAmount ic) = Inr (commission_saleAmount c)
       \<and> pg_decimal_10_2 (ic_commissionAmount ic) = Inr (commission_commissionAmount c)
       \<and> commission_status c = (case ic_status ic of None \<Rightarrow> Some ''pending'' | Some s \<Rightarrow> Some s)
       \<and> commission_paymentMonth c = ic_paymentMonth ic
       \<and> commission_paidAt c = None \<and> commission_createdAt c = Some now"
  using assms
  by (auto simp: createAffiliateCommission_def Let_def split: if_splits sum.splits)

lemma addCredits_Inr:
  assumes "addCredits db uid n = Inr (db1, r)"
  shows "db1 = db\<lparr>users := map (\<lambda>u. if user_id u = uid
                 then u\<lparr>user_credits := map_option (\<lambda>c. c + n) (user_credits u)\<rparr> else u) (users db)\<rparr>"
    and "r = getUser db1 uid"
  using assms by (auto simp: addCredits_def Let_def split: if_splits)

lemma addCredits_tables:
  assumes "addCredits db uid n = Inr (db1, r)"
  shows "affiliateCommissions db1 = affiliateCommissions db"
    and "creditPurchases db1 = creditPurchases db"
    and "orders db1 = orders db"
    and "affiliateClicks db1 = affiliateClicks db"
    and "map user_id (users db1) = map user_id (users db)"
    and "map user_referredBy (users db1) = map user_referredBy (users db)"
    and "getUser db1 uid =
           map_option (\<lambda>u. u\<lparr>user_credits := map_option (\<lambda>c. c + n) (user_credits u)\<rparr>)
             (getUser db uid)"
proof -
  note d = addCredits_Inr(1)[OF assms]
  show "affiliateCommissions db1 = affiliateCommissions db"
    "creditPurchases db1 = creditPurchases db" "orders db1 = orders db"
    "affiliateClicks db1 = affiliateClicks db"
    "map user_id (users db1) = map user_id (users db)"
    "map user_referredBy (users db1) = map user_referredBy (users db)"
    unfolding d by (simp_all add: comp_def)
  show "getUser db1 uid =
           map_option (\<lambda>u. u\<lparr>user_credits := map_option (\<lambda>c. c + n) (user_credits u)\<rparr>)
             (getUser db uid)"
    unfolding d getUser_def by (simp, rule find_key_map) auto
qed


text \<open>The handler, path by path.\<close>

lemma checkout_accepted:
  assumes md: "cs_metadata s = Some md" "md_userId md = Some uid" "md_credits md = Some cr"
    and ne: "uid \<noteq> []" "cr \<noteq> []"
    and u: "getUser db uid = Some u" and n: "parseInt cr = Some n"
    and a: "addCredits db uid n = Inr (db1, r)"
  shows "\<exists>db2.
         (db2 = db1 \<or> (\<exists>x. db2 = db1\<lparr>creditPurchases := creditPurchases db1 @ [x]\<rparr>))
         \<and> (checkout_session_completed db s nid now = db2
             \<or> (\<exists>c pid. user_referredBy u \<noteq> None
                  \<and> createAffiliateCommission db2
                       \<lparr>ic_affiliateUserId = the (user_referredBy u),
                        ic_referredUserId = uid, ic_purchaseId = pid,
                        ic_saleAmount = amountPaid s,
                        ic_commissionAmount = commissionAmount (amountPaid s),
                        ic_paymentMonth = Some (monthKey now),
                        ic_status = Some ''pending''\<rparr> nid now
                      = Inr (checkout_session_completed db s nid now, c)))"
proof -
  let ?db' = "checkout_session_completed db s nid now"
  let ?u1 = "u\<lparr>user_credits := map_option (\<lambda>c. c + n) (user_credits u)\<rparr>"
  have r: "r = Some ?u1"
    using addCredits_Inr(2)[OF a] addCredits_tables(7)[OF a] u by simp
  have uid: "user_id u = uid" using u by (auto simp: getUser_def find_Some_iff)
  let ?cp = "createCreditPurchase db1
               \<lparr>ip_id = Some (cs_id s), ip_userId = uid, ip_amount = amountPaid s,
                ip_credits = n, ip_stripePaymentIntentId = None,
                ip_status = Some ''completed''\<rparr> (cs_id s)"
  obtain db2 pid where p: "(case ?cp of Inl e \<Rightarrow> (db1, cs_id s)
                             | Inr (d, purchase) \<Rightarrow> (d, purchase_id purchase)) = (db2, pid)"
    by (cases "(case ?cp of Inl e \<Rightarrow> (db1, cs_id s)
                 | Inr (d, purchase) \<Rightarrow> (d, purchase_id purchase))")
  have db2: "db2 = db1 \<or> (\<exists>x. db2 = db1\<lparr>creditPurchases := creditPurchases db1 @ [x]\<rparr>)"
    using p createCreditPurchase_Inr by (fastforce split: sum.splits)
  have e: "?db' = (if truthy (user_referredBy ?u1)
             then (case createAffiliateCommission db2
                      \<lparr>ic_affiliateUserId = the (user_referredBy ?u1),
                       ic_referredUserId = user_id ?u1, ic_purchaseId = pid,
                       ic_saleAmount = amountPaid s,
                       ic_commissionAmount = commissionAmount (amountPaid s),
                       ic_paymentMonth = Some (monthKey now),
                       ic_status = Some ''pending''\<rparr> nid now of
                    Inl e \<Rightarrow> db2 | Inr (d, c) \<Rightarrow> d)
             else db2)"
    using md ne u n a r p by (simp add: checkout_session_completed_def Let_def)
  have "?db' = db2
       \<or> (\<exists>c pid. user_referredBy u \<noteq> None
            \<and> createAffiliateCommission db2
                 \<lparr>ic_affiliateUserId = the (user_referredBy u),
                  ic_referredUserId = uid, ic_purchaseId = pid,
                  ic_saleAmount = amountPaid s,
                  ic_commissionAmount = commissionAmount (amountPaid s),
                  ic_paymentMonth = Some (monthKey now),
                  ic_status = Some ''pending''\<rparr> nid now = Inr (?db', c))"
    using e uid by (cases "user_referredBy u") (auto split: sum.splits if_splits)
  with db2 show ?thesis by blast
qed

lemma checkout_rejected:
  assumes "cs_metadata s = None
     \<or> (\<exists>md. cs_metadata s = Some md
           \<and> (\<not> truthy (md_userId md) \<or> \<not> truthy (md_credits md)
               \<or> getUser db (the (md_userId md)) = None
               \<or> parseInt (the (md_credits md)) = None
               \<or> (\<exists>e. addCredits db (the (md_userId md)) (the (parseInt (the (md_credits md))))
                         = Inl e)))"
  shows "checkout_session_completed db s nid now = db"
  using assms
  by (auto simp: checkout_session_completed_def Let_def split: option.splits)

lemma checkout_paths:
  assumes "checkout_session_completed db s nid now = db'"
  shows "db' = db
    \<or> (\<exists>md uid cr n u db1 r db2.
         cs_metadata s = Some md \<and> md_userId md = Some uid \<and> md_credits md = Some cr
         \<and> getUser db uid = Some u \<and> parseInt cr = Some n
         \<and> addCredits db uid n = Inr (db1, r)
         \<and> (db2 = db1 \<or> (\<exists>x. db2 = db1\<lparr>creditPurchases := creditPurchases db1 @ [x]\<rparr>))
         \<and> (db' = db2
             \<or> (\<exists>c pid. user_referredBy u \<noteq> None
                  \<and> createAffiliateCommission db2
                       \<lparr>ic_affiliateUserId = the (user_referredBy u),
                        ic_referredUserId = uid, ic_purchaseId = pid,
                        ic_saleAmount = amountPaid s,
                        ic_commissionAmount = commissionAmount (amountPaid s),
                        ic_paymentMonth = Some (monthKey now),
                        ic_status = Some ''pending''\<rparr> nid now = Inr (db', c))))"
proof (cases "cs_metadata s = None
     \<or> (\<exists>md. cs_metadata s = Some md
           \<and> (\<not> truthy (md_userId md) \<or> \<not> truthy (md_credits md)
               \<or> getUser db (the (md_userId md)) = None
               \<or> parseInt (the (md_credits md)) = None
               \<or> (\<exists>e. addCredits db (the (md_userId md)) (the (parseInt (the (md_credits md))))
                         = Inl e)))")
  case True
  from checkout_rejected[OF this] assms show ?thesis by simp
next
  case False
  then obtain md uid cr u n where md: "cs_metadata s = Some md" "md_userId md = Some uid"
      "md_credits md = Some cr" and ne: "uid \<noteq> []" "cr \<noteq> []"
    and u: "getUser db uid = Some u" and n: "parseInt cr = Some n"
    and na: "\<forall>e. addCredits db uid n \<noteq> Inl e"
    by (cases "cs_metadata s"; cases "md_userId (the (cs_metadata s))";
        cases "md_credits (the (cs_metadata s))") auto
  from na obtain db1 r where a: "addCredits db uid n = Inr (db1, r)"
    by (cases "addCredits db uid n") auto
  from checkout_accepted[OF md ne u n a, of nid now] md u n a assms show ?thesis by blast
qed


lemma parseInt_Nil [simp]: "parseInt [] = None"
  by (simp add: parseInt_def)




lemma show_nat_small: "n < 10 \<Longrightarrow> show_nat n = [digit_char n]"
  by (simp add: show_nat.simps)

lemma show_nat_large: "10 \<le> n \<Longrightarrow> show_nat n = show_nat (n div 10) @ [digit_char (n mod 10)]"
  by (subst show_nat.simps) simp

lemma demo_parseInt: "parseInt ''10000'' = Some 10000"
  by (simp add: parseInt_def is_space_def digit_value_def)

lemma digit_chars:
  "digit_char 0 = CHR ''0''" "digit_char 1 = CHR ''1''" "digit_char 2 = CHR ''2''"
  "digit_char 3 = CHR ''3''" "digit_char 4 = CHR ''4''" "digit_char 5 = CHR ''5''"
  "digit_char 6 = CHR ''6''" "digit_char 7 = CHR ''7''" "digit_char 8 = CHR ''8''"
  "digit_char 9 = CHR ''9''"
  unfolding digit_char_def by code_simp+

lemma demo_monthKey: "monthKey demo_date = ''2025-06''"
  by (simp add: monthKey_def demo_date_def show_nat_small show_nat_large digit_chars padStart_def)

lemma amountPaid_1900: "amountPaid demo_session = 19"
proof -
  have "js_div (fl 1900) 100 = 19" by code_simp
  then show ?thesis by (simp add: amountPaid_def demo_session_def)
qed

lemma commissionAmount_19: "commissionAmount 19 = 6417629469002957 / 2251799813685248"
  unfolding commissionAmount_def by code_simp

lemma pg_decimal_19: "pg_decimal_10_2 19 = Inr 19"
  by code_simp

lemma pg_decimal_285: "pg_decimal_10_2 (6417629469002957 / 2251799813685248) = Inr (285 / 100)"
  by code_simp

lemma referral_db_reachable: "reachable referral_db"
proof -
  let ?s0 = "\<lparr>sess_affiliateCode = None, sess_affiliateAdminAuth = False\<rparr>"
  let ?ab = "\<lparr>rb_email = Some ''alice@example.com'', rb_password = Some ''correct horse'',
              rb_firstName = Some ''Alice'', rb_lastName = None\<rparr>"
  let ?bb = "\<lparr>rb_email = Some ''bob@example.com'', rb_password = Some ''battery staple'',
              rb_firstName = Some ''Bob'', rb_lastName = None\<rparr>"
  let ?a0 = "\<lparr>user_id = ''user_1'', user_email = ''alice@example.com'', user_credits = Some 0,
              user_affiliateCode = None, user_referredBy = None\<rparr>"
  let ?d1 = "empty_database\<lparr>users := [?a0]\<rparr>"
  let ?d2 = "empty_database\<lparr>users := [alice\<lparr>user_credits := Some 0\<rparr>]\<rparr>"
  have 1: "fst (post_register empty_database ?s0 ?ab ''user_1'') = ?d1"
    by (simp add: post_register_def getUserByEmail_def createUser_def empty_database_def)
  have 2: "generateAffiliateCode ?d1 ''user_1'' ''ABC123''
             = Inr (?d2, Some (alice\<lparr>user_credits := Some 0\<rparr>))"
    by (simp add: generateAffiliateCode_def getUser_def empty_database_def alice_def)
  have 3: "fst (post_register ?d2 (?s0\<lparr>sess_affiliateCode := Some ''ABC123''\<rparr>) ?bb ''user_2'')
             = referral_db"
    by (simp add: post_register_def getUserByEmail_def getUserByAffiliateCode_def createUser_def
        empty_database_def alice_def bob_def referral_db_def Let_def)
  have "reachable ?d1" using r_register[OF r_empty, of ?s0 ?ab "''user_1''"] 1 by simp
  then have "reachable ?d2" using 2 by (rule r_generateAffiliateCode)
  then show ?thesis
    using r_register[of ?d2 "?s0\<lparr>sess_affiliateCode := Some ''ABC123''\<rparr>" ?bb "''user_2''"] 3
    by simp
qed

lemma checkout_referral_db:
  "checkout_session_completed referral_db demo_session ''comm_1'' demo_date
     = \<lparr>users = [alice\<lparr>user_credits := Some 0\<rparr>, bob],
        creditPurchases = [demo_purchase], orders = [], affiliateClicks = [],
        affiliateCommissions = [demo_commission]\<rparr>"
  by (simp add: checkout_session_completed_def demo_session_def[THEN arg_cong, of cs_metadata]
      demo_session_def[THEN arg_cong, of cs_id] referral_db_def getUser_def alice_def bob_def
      demo_parseInt addCredits_def int4_def createCreditPurchase_def createAffiliateCommission_def
      amountPaid_1900 commissionAmount_19 pg_decimal_19 pg_decimal_285 demo_monthKey
      demo_purchase_def demo_commission_def Let_def)




section \<open>Invariants of the reachable databases\<close>

definition user_refs :: "database \<Rightarrow> (string \<times> string option) list" where
  "user_refs db = map (\<lambda>u. (user_id u, user_referredBy u)) (users db)"

definition attribution_inv :: "database \<Rightarrow> bool" where
  "attribution_inv db =
     ((\<forall>p \<in> set (user_refs db). snd p \<noteq> Some (fst p))
      \<and> (\<forall>c \<in> set (affiliateCommissions db).
            commission_affiliateUserId c \<noteq> commission_referredUserId c
            \<and> (commission_referredUserId c, Some (commission_affiliateUserId c))
                \<in> set (user_refs db)))"

definition payment_inv :: "database \<Rightarrow> bool" where
  "payment_inv db =
     (\<forall>c \<in> set (affiliateCommissions db).
        commission_paymentMonth c \<noteq> None
        \<and> (commission_status c = Some ''pending'' \<and> commission_paidAt c = None
           \<or> commission_status c = Some ''paid'' \<and> commission_paidAt c \<noteq> None))"

lemma user_refs_map:
  assumes "\<And>u. user_id (f u) = user_id u" "\<And>u. user_referredBy (f u) = user_referredBy u"
  shows "user_refs (db\<lparr>users := map f (users db)\<rparr>) = user_refs db"
  using assms by (simp add: user_refs_def comp_def)

lemma addCredits_same:
  assumes "addCredits db uid n = Inr (db1, r)"
  shows "user_refs db1 = user_refs db \<and> affiliateCommissions db1 = affiliateCommissions db"
proof -
  have "user_refs db1 = user_refs db"
    unfolding addCredits_Inr(1)[OF assms] by (rule user_refs_map) auto
  then show ?thesis using addCredits_tables(1)[OF assms] by simp
qed

lemma deductCredits_same:
  assumes "deductCredits db uid n = Inr (db1, r)"
  shows "user_refs db1 = user_refs db \<and> affiliateCommissions db1 = affiliateCommissions db"
proof -
  have "user_refs db1 = user_refs db"
    unfolding deductCredits_Inr(1)[OF assms] by (rule user_refs_map) auto
  then show ?thesis using deductCredits_tables(2)[OF assms] by simp
qed

lemma user_refs_other [simp]:
  "user_refs (db\<lparr>orders := os\<rparr>) = user_refs db"
  "user_refs (db\<lparr>creditPurchases := ps\<rparr>) = user_refs db"
  "user_refs (db\<lparr>affiliateClicks := ks\<rparr>) = user_refs db"
  "user_refs (db\<lparr>affiliateCommissions := cs\<rparr>) = user_refs db"
  by (simp_all add: user_refs_def)

lemma generateAffiliateCode_same:
  assumes "generateAffiliateCode db uid code = Inr (db', u)"
  shows "user_refs db' = user_refs db \<and> affiliateCommissions db' = affiliateCommissions db"
proof -
  have "db' = db\<lparr>users := map (\<lambda>u. if user_id u = uid then u\<lparr>user_affiliateCode := Some code\<rparr> else u) (users db)\<rparr>"
    using assms by (auto simp: generateAffiliateCode_def Let_def split: if_splits)
  then show ?thesis by (simp add: user_refs_def comp_def)
qed

lemma get_ref_same:
  "user_refs (fst (get_ref db sess code ip ua ref nid now)) = user_refs db
   \<and> affiliateCommissions (fst (get_ref db sess code ip ua ref nid now)) = affiliateCommissions db"
  by (auto simp: get_ref_def trackAffiliateClick_def Let_def user_refs_def split: sum.splits)

lemma createCreditPurchase_same:
  assumes "createCreditPurchase db p nid = Inr (db', x)"
  shows "user_refs db' = user_refs db \<and> affiliateCommissions db' = affiliateCommissions db"
  using createCreditPurchase_Inr[OF assms] by simp

lemma updateCreditPurchaseStatus_same:
  "user_refs (updateCreditPurchaseStatus db pid st) = user_refs db
   \<and> affiliateCommissions (updateCreditPurchaseStatus db pid st) = affiliateCommissions db"
  by (simp add: updateCreditPurchaseStatus_def)

lemma post_orders_same:
  "user_refs (fst (post_orders bounds db uid body nid now)) = user_refs db
   \<and> affiliateCommissions (fst (post_orders bounds db uid body nid now)) = affiliateCommissions db"
proof -
  have c: "createOrder d od nid now = Inr (d', x) \<Longrightarrow> user_refs d' = user_refs d \<and> affiliateCommissions d' = affiliateCommissions d" for d od d' x
    by (auto simp: createOrder_def Let_def split: if_splits)
  have d: "deductCredits db uid k = Inr (d1, u1) \<Longrightarrow> user_refs d1 = user_refs db \<and> affiliateCommissions d1 = affiliateCommissions db" for k d1 u1
    by (rule deductCredits_same)
  show ?thesis
    unfolding post_orders_def
    by (auto split: sum.splits option.splits prod.splits dest!: c d)
qed

lemma put_fulfill_same:
  "user_refs (fst (put_fulfill db oid body now)) = user_refs db
   \<and> affiliateCommissions (fst (put_fulfill db oid body now)) = affiliateCommissions db"
proof -
  have f: "fulfillOrder db oid fd = Inr (d', x) \<Longrightarrow>
      user_refs d' = user_refs db \<and> affiliateCommissions d' = affiliateCommissions db" for fd d' x
    using fulfillOrder_Inr(3,4)[of db oid fd d' x] by (simp add: user_refs_def)
  show ?thesis
    unfolding put_fulfill_def
    by (auto split: sum.splits option.splits js_field.splits dest!: f)
qed

lemma post_mark_paid_effect:
  "user_refs (fst (post_mark_paid db sess body now)) = user_refs db
   \<and> (affiliateCommissions (fst (post_mark_paid db sess body now)) = affiliateCommissions db
      \<or> (\<exists>ids m. affiliateCommissions (fst (post_mark_paid db sess body now))
                   = affiliateCommissions (markCommissionsPaid db ids m now)))"
  by (auto simp: post_mark_paid_def markCommissionsPaid_def split: option.splits)

lemma post_register_effect:
  "affiliateCommissions (fst (post_register db sess body nid)) = affiliateCommissions db
   \<and> (user_refs (fst (post_register db sess body nid)) = user_refs db
      \<or> (\<exists>r. user_refs (fst (post_register db sess body nid)) = user_refs db @ [(nid, r)]
              \<and> nid \<notin> set (map user_id (users db))
              \<and> (r = None \<or> (\<exists>a \<in> set (users db). r = Some (user_id a)))))"
proof -
  have g: "getUserByAffiliateCode db c = Some a \<Longrightarrow> a \<in> set (users db)" for c a
    by (auto simp: getUserByAffiliateCode_def find_Some_iff)
  have c: "createUser db ud = Inr (d', x) \<Longrightarrow>
       affiliateCommissions d' = affiliateCommissions db
       \<and> user_refs d' = user_refs db @ [(user_id ud, user_referredBy ud)]
       \<and> user_id ud \<notin> set (map user_id (users db))" for ud d' x
    by (auto simp: createUser_def user_refs_def split: if_splits)
  define r where "r = (if truthy (sess_affiliateCode sess)
                     then (case getUserByAffiliateCode db (the (sess_affiliateCode sess)) of
                             None \<Rightarrow> None
                           | Some affiliateUser \<Rightarrow> Some (user_id affiliateUser))
                     else None)"
  have r: "r = None \<or> (\<exists>a \<in> set (users db). r = Some (user_id a))"
    unfolding r_def by (auto split: option.splits dest: g)
  let ?ud = "\<lparr>user_id = nid, user_email = the (rb_email body), user_credits = Some 0,
              user_affiliateCode = None, user_referredBy = r\<rparr>"
  have p: "fst (post_register db sess body nid) = db
      \<or> (\<exists>d x. createUser db ?ud = Inr (d, x) \<and> fst (post_register db sess body nid) = d)"
    unfolding post_register_def Let_def r_def [symmetric]
    by (auto split: option.splits sum.splits)
  from p show ?thesis
  proof
    assume "fst (post_register db sess body nid) = db"
    then show ?thesis by simp
  next
    assume "\<exists>d x. createUser db ?ud = Inr (d, x) \<and> fst (post_register db sess body nid) = d"
    then obtain d x where cu: "createUser db ?ud = Inr (d, x)"
      and d: "fst (post_register db sess body nid) = d" by blast
    from c[OF cu] r d show ?thesis by auto
  qed
qed

lemma checkout_effect:
  "user_refs (checkout_session_completed db s nid now) = user_refs db
   \<and> (affiliateCommissions (checkout_session_completed db s nid now) = affiliateCommissions db
      \<or> (\<exists>c u md. affiliateCommissions (checkout_session_completed db s nid now)
                    = affiliateCommissions db @ [c]
            \<and> cs_metadata s = Some md \<and> md_userId md = Some (user_id u)
            \<and> getUser db (user_id u) = Some u
            \<and> user_referredBy u = Some (commission_affiliateUserId c)
            \<and> commission_referredUserId c = user_id u
            \<and> commission_status c = Some ''pending''
            \<and> commission_paymentMonth c = Some (monthKey now)
            \<and> commission_paidAt c = None
            \<and> pg_decimal_10_2 (amountPaid s) = Inr (commission_saleAmount c)
            \<and> pg_decimal_10_2 (commissionAmount (amountPaid s)) = Inr (commission_commissionAmount c)))"
proof -
  let ?db' = "checkout_session_completed db s nid now"
  consider (unchanged) "?db' = db"
    | (accepted) md uid cr n u db1 r db2 where
        "cs_metadata s = Some md" "md_userId md = Some uid" "md_credits md = Some cr"
        "getUser db uid = Some u" "parseInt cr = Some n"
        "db2 = db1 \<or> (\<exists>x. db2 = db1\<lparr>creditPurchases := creditPurchases db1 @ [x]\<rparr>)"
        "addCredits db uid n = Inr (db1, r)"
        "?db' = db2
             \<or> (\<exists>c pid. user_referredBy u \<noteq> None
                  \<and> createAffiliateCommission db2
                       \<lparr>ic_affiliateUserId = the (user_referredBy u),
                        ic_referredUserId = uid, ic_purchaseId = pid,
                        ic_saleAmount = amountPaid s,
                        ic_commissionAmount = commissionAmount (amountPaid s),
                        ic_paymentMonth = Some (monthKey now),
                        ic_status = Some ''pending''\<rparr> nid now = Inr (?db', c))"
    using checkout_paths[of db s nid now ?db', OF refl] by blast
  then show ?thesis
  proof cases
    case unchanged then show ?thesis by simp
  next
    case (accepted md uid cr n u db1 r db2)
    note md = accepted(1-3) and u = accepted(4) and db2 = accepted(6) and a = accepted(7)
      and db' = accepted(8)
    have uid: "user_id u = uid" using u by (auto simp: getUser_def find_Some_iff)
    have r2: "user_refs db2 = user_refs db" "affiliateCommissions db2 = affiliateCommissions db"
      using db2 addCredits_same[OF a] by auto
    from db' show ?thesis
    proof (elim disjE exE conjE)
      assume "?db' = db2" with r2 show ?thesis by simp
    next
      fix c pid
      assume rb: "user_referredBy u \<noteq> None"
        and cc: "createAffiliateCommission db2
                       \<lparr>ic_affiliateUserId = the (user_referredBy u),
                        ic_referredUserId = uid, ic_purchaseId = pid,
                        ic_saleAmount = amountPaid s,
                        ic_commissionAmount = commissionAmount (amountPaid s),
                        ic_paymentMonth = Some (monthKey now),
                        ic_status = Some ''pending''\<rparr> nid now = Inr (?db', c)"
      note f = createAffiliateCommission_Inr[OF cc]
      have "user_refs ?db' = user_refs db" using f r2 by (metis user_refs_other(4))
      moreover have "affiliateCommissions ?db' = affiliateCommissions db @ [c]"
        using f r2 by (metis database.select_convs(5) database.surjective database.update_convs(5))
      moreover have "user_referredBy u = Some (commission_affiliateUserId c)"
        using f rb by auto
      ultimately show ?thesis using f md u uid by auto
    qed
  qed
qed
lemma inv_same:
  assumes "user_refs db' = user_refs db \<and> affiliateCommissions db' = affiliateCommissions db"
  shows "attribution_inv db \<Longrightarrow> attribution_inv db'" "payment_inv db \<Longrightarrow> payment_inv db'"
  using assms by (simp_all add: attribution_inv_def payment_inv_def)

lemma getUser_refs:
  "getUser db uid = Some u \<Longrightarrow> (uid, user_referredBy u) \<in> set (user_refs db)"
  by (force simp: getUser_def find_Some_iff user_refs_def)

lemma user_refs_ids: "fst ` set (user_refs db) = set (map user_id (users db))"
  by (force simp: user_refs_def)

lemma attribution_inv_register:
  assumes "attribution_inv db"
  shows "attribution_inv (fst (post_register db sess body nid))"
proof -
  let ?d = "fst (post_register db sess body nid)"
  from post_register_effect[of db sess body nid]
  have c: "affiliateCommissions ?d = affiliateCommissions db"
    and u: "user_refs ?d = user_refs db
      \<or> (\<exists>r. user_refs ?d = user_refs db @ [(nid, r)]
              \<and> nid \<notin> set (map user_id (users db))
              \<and> (r = None \<or> (\<exists>a \<in> set (users db). r = Some (user_id a))))"
    by blast+
  from u show ?thesis
  proof
    assume "user_refs ?d = user_refs db"
    with c assms show ?thesis by (simp add: attribution_inv_def)
  next
    assume "\<exists>r. user_refs ?d = user_refs db @ [(nid, r)]
              \<and> nid \<notin> set (map user_id (users db))
              \<and> (r = None \<or> (\<exists>a \<in> set (users db). r = Some (user_id a)))"
    then obtain r where r: "user_refs ?d = user_refs db @ [(nid, r)]"
      and n: "nid \<notin> set (map user_id (users db))"
      and a: "r = None \<or> (\<exists>a \<in> set (users db). r = Some (user_id a))" by blast
    have "r \<noteq> Some nid" using n a by auto
    with assms c r show ?thesis by (auto simp: attribution_inv_def)
  qed
qed

lemma payment_inv_mark:
  assumes "payment_inv db"
  shows "payment_inv (markCommissionsPaid db ids m t)"
  using assms by (auto simp: payment_inv_def markCommissionsPaid_def)

lemma attribution_inv_mark:
  assumes "attribution_inv db"
  shows "attribution_inv (markCommissionsPaid db ids m t)"
  using assms by (auto simp: attribution_inv_def markCommissionsPaid_def)

lemma inv_mark_paid:
  assumes "attribution_inv db \<and> payment_inv db"
  shows "attribution_inv (fst (post_mark_paid db sess body now))
       \<and> payment_inv (fst (post_mark_paid db sess body now))"
proof -
  have "fst (post_mark_paid db sess body now) = db
      \<or> (\<exists>ids m. fst (post_mark_paid db sess body now) = markCommissionsPaid db ids m now)"
    by (auto simp: post_mark_paid_def split: option.splits)
  with assms attribution_inv_mark payment_inv_mark show ?thesis by auto
qed

lemma inv_checkout:
  assumes "attribution_inv db \<and> payment_inv db"
  shows "attribution_inv (checkout_session_completed db s nid now)
       \<and> payment_inv (checkout_session_completed db s nid now)"
proof -
  let ?d = "checkout_session_completed db s nid now"
  from checkout_effect[of db s nid now]
  have u: "user_refs ?d = user_refs db"
    and c: "affiliateCommissions ?d = affiliateCommissions db
      \<or> (\<exists>c u md. affiliateCommissions ?d = affiliateCommissions db @ [c]
            \<and> cs_metadata s = Some md \<and> md_userId md = Some (user_id u)
            \<and> getUser db (user_id u) = Some u
            \<and> user_referredBy u = Some (commission_affiliateUserId c)
            \<and> commission_referredUserId c = user_id u
            \<and> commission_status c = Some ''pending''
            \<and> commission_paymentMonth c = Some (monthKey now)
            \<and> commission_paidAt c = None
            \<and> pg_decimal_10_2 (amountPaid s) = Inr (commission_saleAmount c)
            \<and> pg_decimal_10_2 (commissionAmount (amountPaid s)) = Inr (commission_commissionAmount c))"
    by blast+
  from c show ?thesis
  proof
    assume "affiliateCommissions ?d = affiliateCommissions db"
    with u assms show ?thesis by (simp add: attribution_inv_def payment_inv_def)
  next
    assume "\<exists>c u md. affiliateCommissions ?d = affiliateCommissions db @ [c]
            \<and> cs_metadata s = Some md \<and> md_userId md = Some (user_id u)
            \<and> getUser db (user_id u) = Some u
            \<and> user_referredBy u = Some (commission_affiliateUserId c)
            \<and> commission_referredUserId c = user_id u
            \<and> commission_status c = Some ''pending''
            \<and> commission_paymentMonth c = Some (monthKey now)
            \<and> commission_paidAt c = None
            \<and> pg_decimal_10_2 (amountPaid s) = Inr (commission_saleAmount c)
            \<and> pg_decimal_10_2 (commissionAmount (amountPaid s)) = Inr (commission_commissionAmount c)"
    then obtain c u where cs: "affiliateCommissions ?d = affiliateCommissions db @ [c]"
      and g: "getUser db (user_id u) = Some u"
      and rb: "user_referredBy u = Some (commission_affiliateUserId c)"
      and rf: "commission_referredUserId c = user_id u"
      and st: "commission_status c = Some ''pending''" "commission_paymentMonth c = Some (monthKey now)"
        "commission_paidAt c = None"
      by blast
    have m: "(user_id u, Some (commission_affiliateUserId c)) \<in> set (user_refs db)"
      using getUser_refs[OF g] rb by simp
    then have "commission_affiliateUserId c \<noteq> user_id u"
      using assms by (force simp: attribution_inv_def)
    with assms u cs m rf st show ?thesis
      by (auto simp: attribution_inv_def payment_inv_def)
  qed
qed

lemma reachable_inv: "reachable db \<Longrightarrow> attribution_inv db \<and> payment_inv db"
proof (induction rule: reachable.induct)
  case r_empty
  show ?case by (simp add: attribution_inv_def payment_inv_def empty_database_def user_refs_def)
next
  case (r_register db sess body newId)
  then show ?case
    using attribution_inv_register post_register_effect[of db sess body newId]
    by (simp add: payment_inv_def)
next
  case (r_generateAffiliateCode db userId code db' u)
  then show ?case using inv_same[OF generateAffiliateCode_same] by blast
next
  case (r_ref db sess code ip ua ref newId now)
  then show ?case using inv_same[OF get_ref_same] by blast
next
  case (r_createCreditPurchase db purchase newId db' p)
  then show ?case using inv_same[OF createCreditPurchase_same] by blast
next
  case (r_updateCreditPurchaseStatus db pid status)
  then show ?case using inv_same[OF updateCreditPurchaseStatus_same] by blast
next
  case (r_addCredits db userId n db' u)
  then show ?case using inv_same[OF addCredits_same] by blast
next
  case (r_checkout db s newId now)
  then show ?case using inv_checkout by blast
next
  case (r_orders db bounds userId ob newId now)
  then show ?case using inv_same[OF post_orders_same] by blast
next
  case (r_fulfill db orderId fb now)
  then show ?case using inv_same[OF put_fulfill_same] by blast
next
  case (r_mark_paid db sess mb now)
  then show ?case using inv_mark_paid by blast
qed

text \<open>The primary key of \<^verbatim>\<open>users\<close> holds in every reachable database.\<close>

lemma user_refs_fst: "map fst (user_refs db) = map user_id (users db)"
  by (simp add: user_refs_def comp_def)

lemma key_same:
  assumes "user_refs db' = user_refs db \<and> affiliateCommissions db' = affiliateCommissions db"
    and "distinct (map user_id (users db))"
  shows "distinct (map user_id (users db'))"
  using assms user_refs_fst by metis

lemma reachable_users_key: "reachable db \<Longrightarrow> distinct (map user_id (users db))"
proof (induction rule: reachable.induct)
  case r_empty
  show ?case by (simp add: empty_database_def)
next
  case (r_register db sess body newId)
  let ?d = "fst (post_register db sess body newId)"
  from post_register_effect[of db sess body newId]
  have "user_refs ?d = user_refs db
      \<or> (\<exists>r. user_refs ?d = user_refs db @ [(newId, r)]
              \<and> newId \<notin> set (map user_id (users db)))"
    by blast
  then have "map user_id (users ?d) = map user_id (users db)
      \<or> (map user_id (users ?d) = map user_id (users db) @ [newId]
          \<and> newId \<notin> set (map user_id (users db)))"
    unfolding user_refs_fst[symmetric] by auto
  with r_register.IH show ?case by auto
next
  case (r_generateAffiliateCode db userId code db' u)
  then show ?case using key_same[OF generateAffiliateCode_same] by blast
next
  case (r_ref db sess code ip ua ref newId now)
  then show ?case using key_same[OF get_ref_same] by blast
next
  case (r_createCreditPurchase db purchase newId db' p)
  then show ?case using key_same[OF createCreditPurchase_same] by blast
next
  case (r_updateCreditPurchaseStatus db pid status)
  then show ?case using key_same[OF updateCreditPurchaseStatus_same] by blast
next
  case (r_addCredits db userId n db' u)
  then show ?case using key_same[OF addCredits_same] by blast
next
  case (r_checkout db s newId now)
  then show ?case using checkout_effect[of db s newId now] user_refs_fst by metis
next
  case (r_orders db bounds userId ob newId now)
  then show ?case using key_same[OF post_orders_same] by blast
next
  case (r_fulfill db orderId fb now)
  then show ?case using key_same[OF put_fulfill_same] by blast
next
  case (r_mark_paid db sess mb now)
  then show ?case using post_mark_paid_effect[of db sess mb now] user_refs_fst by metis
qed

text \<open>
  C5. In a reachable database the webhook either leaves the commission table as it is or
  appends one row; a row is appended only for a purchaser whose \<^verbatim>\<open>referredBy\<close> is set,
  the row's affiliate is that \<^verbatim>\<open>referredBy\<close>, its referred user is the purchaser, and
  the two differ. Every commission row of a reachable database has an affiliate different
  from its referred user, and that user's \<^verbatim>\<open>referredBy\<close> is the affiliate.
\<close>

theorem commission_attribution:
  assumes "reachable db"
  shows "(affiliateCommissions (checkout_session_completed db s newId now) = affiliateCommissions db
          \<or> (\<exists>c u md. affiliateCommissions (checkout_session_completed db s newId now)
                         = affiliateCommissions db @ [c]
                \<and> cs_metadata s = Some md \<and> md_userId md = Some (user_id u)
                \<and> getUser db (user_id u) = Some u
                \<and> user_referredBy u = Some (commission_affiliateUserId c)
                \<and> commission_referredUserId c = user_id u
                \<and> commission_affiliateUserId c \<noteq> commission_referredUserId c))
       \<and> (\<forall>c \<in> set (affiliateCommissions db).
             commission_affiliateUserId c \<noteq> commission_referredUserId c
             \<and> (\<exists>u \<in> set (users db). user_id u = commission_referredUserId c
                    \<and> user_referredBy u = Some (commission_affiliateUserId c)))"
proof -
  let ?d = "checkout_session_completed db s newId now"
  have i: "attribution_inv db" and i': "attribution_inv ?d"
    using reachable_inv[OF assms] reachable_inv[OF r_checkout[OF assms]] by blast+
  have b: "\<forall>c \<in> set (affiliateCommissions db).
             commission_affiliateUserId c \<noteq> commission_referredUserId c
             \<and> (\<exists>u \<in> set (users db). user_id u = commission_referredUserId c
                    \<and> user_referredBy u = Some (commission_affiliateUserId c))"
    using i by (force simp: attribution_inv_def user_refs_def)
  have a: "affiliateCommissions ?d = affiliateCommissions db
          \<or> (\<exists>c u md. affiliateCommissions ?d = affiliateCommissions db @ [c]
                \<and> cs_metadata s = Some md \<and> md_userId md = Some (user_id u)
                \<and> getUser db (user_id u) = Some u
                \<and> user_referredBy u = Some (commission_affiliateUserId c)
                \<and> commission_referredUserId c = user_id u
                \<and> commission_affiliateUserId c \<noteq> commission_referredUserId c)"
    using checkout_effect[of db s newId now] i'
    by (fastforce simp: attribution_inv_def)
  from a b show ?thesis by blast
qed

theorem commission_attribution_witness:
  "affiliateCommissions (checkout_session_completed referral_db demo_session ''comm_1'' demo_date)
     = affiliateCommissions referral_db @ [demo_commission]
   \<and> getUser referral_db ''user_2'' = Some (bob\<lparr>user_credits := Some 0\<rparr>)
   \<and> user_referredBy (bob\<lparr>user_credits := Some 0\<rparr>) = Some ''user_1''
   \<and> commission_affiliateUserId demo_commission = ''user_1''
   \<and> commission_referredUserId demo_commission = ''user_2''
   \<and> affiliateCommissions
        (checkout_session_completed referral_db
           (demo_session\<lparr>cs_metadata := Some \<lparr>md_userId = Some ''user_1'', md_credits = Some ''10000''\<rparr>\<rparr>)
           ''comm_1'' demo_date)
     = affiliateCommissions referral_db"
proof -
  let ?s = "demo_session\<lparr>cs_metadata := Some \<lparr>md_userId = Some ''user_1'', md_credits = Some ''10000''\<rparr>\<rparr>"
  have e: "affiliateCommissions referral_db = []" by (simp add: referral_db_def)
  have a: "affiliateCommissions (checkout_session_completed referral_db demo_session ''comm_1'' demo_date)
     = affiliateCommissions referral_db @ [demo_commission]"
    unfolding checkout_referral_db e by simp
  have u: "getUser referral_db ''user_2'' = Some (bob\<lparr>user_credits := Some 0\<rparr>)"
    "getUser referral_db ''user_1'' = Some (alice\<lparr>user_credits := Some 0\<rparr>)"
    by (simp_all add: getUser_def referral_db_def alice_def bob_def)
  have f: "user_referredBy (bob\<lparr>user_credits := Some 0\<rparr>) = Some ''user_1''"
    "user_referredBy (alice\<lparr>user_credits := Some 0\<rparr>) = None"
    "commission_affiliateUserId demo_commission = ''user_1''"
    "commission_referredUserId demo_commission = ''user_2''"
    by (simp_all add: bob_def alice_def demo_commission_def)
  from commission_attribution [OF referral_db_reachable, of ?s "''comm_1''" demo_date]
  have "affiliateCommissions (checkout_session_completed referral_db ?s ''comm_1'' demo_date)
     = affiliateCommissions referral_db"
  proof (elim conjE disjE exE)
    fix c u md
    assume "cs_metadata ?s = Some md" "md_userId md = Some (user_id u)"
      "getUser referral_db (user_id u) = Some u"
      "user_referredBy u = Some (commission_affiliateUserId c)"
    with u f have False by (auto simp: demo_session_def)
    then show ?thesis ..
  qed
  with a u f show ?thesis by simp
qed

text \<open>
  C6, as the code has it. In a reachable database a pending commission has no
  \<^verbatim>\<open>paidAt\<close> and a paid one has it; \<^verbatim>\<open>paymentMonth\<close> is set on every row, because
  the webhook creates the row with status \<^verbatim>\<open>pending\<close>, no \<^verbatim>\<open>paidAt\<close>, and the month
  of creation as \<^verbatim>\<open>paymentMonth\<close>. \<^verbatim>\<open>markCommissionsPaid\<close> sets status, month and
  time together on the rows it names.
\<close>

theorem commission_payment_fields:
  assumes "reachable db"
  shows "(\<forall>c \<in> set (affiliateCommissions db).
            commission_paymentMonth c \<noteq> None
            \<and> (commission_status c = Some ''pending'' \<and> commission_paidAt c = None
               \<or> commission_status c = Some ''paid'' \<and> commission_paidAt c \<noteq> None))
       \<and> (affiliateCommissions (checkout_session_completed db s newId now) = affiliateCommissions db
          \<or> (\<exists>c. affiliateCommissions (checkout_session_completed db s newId now)
                     = affiliateCommissions db @ [c]
                \<and> commission_status c = Some ''pending''
                \<and> commission_paymentMonth c = Some (monthKey now)
                \<and> commission_paidAt c = None))
       \<and> (\<forall>c \<in> set (affiliateCommissions (markCommissionsPaid db ids m t)).
            commission_id c \<in> set ids \<longrightarrow>
              commission_status c = Some ''paid'' \<and> commission_paymentMonth c = Some m
              \<and> commission_paidAt c = Some t)"
proof -
  have "payment_inv db" using reachable_inv[OF assms] by blast
  then have a: "\<forall>c \<in> set (affiliateCommissions db).
            commission_paymentMonth c \<noteq> None
            \<and> (commission_status c = Some ''pending'' \<and> commission_paidAt c = None
               \<or> commission_status c = Some ''paid'' \<and> commission_paidAt c \<noteq> None)"
    by (simp add: payment_inv_def)
  have b: "affiliateCommissions (checkout_session_completed db s newId now) = affiliateCommissions db
          \<or> (\<exists>c. affiliateCommissions (checkout_session_completed db s newId now)
                     = affiliateCommissions db @ [c]
                \<and> commission_status c = Some ''pending''
                \<and> commission_paymentMonth c = Some (monthKey now)
                \<and> commission_paidAt c = None)"
    using checkout_effect[of db s newId now] by blast
  have c: "\<forall>c \<in> set (affiliateCommissions (markCommissionsPaid db ids m t)).
            commission_id c \<in> set ids \<longrightarrow>
              commission_status c = Some ''paid'' \<and> commission_paymentMonth c = Some m
              \<and> commission_paidAt c = Some t"
    by (auto simp: markCommissionsPaid_def)
  from a b c show ?thesis by blast
qed
theorem commission_payment_fields_witness:
  "affiliateCommissions (checkout_session_completed referral_db demo_session ''comm_1'' demo_date)
     = affiliateCommissions referral_db @ [demo_commission]
   \<and> commission_status demo_commission = Some ''pending''
   \<and> commission_paymentMonth demo_commission = Some (monthKey demo_date)
   \<and> commission_paidAt demo_commission = None
   \<and> affiliateCommissions referral_db = []"
proof -
  have e: "affiliateCommissions referral_db = []" by (simp add: referral_db_def)
  have a: "affiliateCommissions (checkout_session_completed referral_db demo_session ''comm_1'' demo_date)
     = affiliateCommissions referral_db @ [demo_commission]"
    unfolding checkout_referral_db e by simp
  from commission_payment_fields [OF referral_db_reachable, of demo_session "''comm_1''" demo_date]
  have "commission_status demo_commission = Some ''pending''
      \<and> commission_paymentMonth demo_commission = Some (monthKey demo_date)
      \<and> commission_paidAt demo_commission = None"
    using a by auto
  with a e show ?thesis by simp
qed

text \<open>
  C6 as stated fails: the commission that the webhook creates for the referred purchaser
  of the example is pending and carries the payment month \<^verbatim>\<open>2025-06\<close>.
\<close>

theorem pending_commission_has_month_counterexample:
  "commission_status
     (last (affiliateCommissions
        (checkout_session_completed referral_db demo_session ''comm_1'' demo_date)))
     = Some ''pending''
   \<and> commission_paymentMonth
     (last (affiliateCommissions
        (checkout_session_completed referral_db demo_session ''comm_1'' demo_date)))
     = Some ''2025-06''"
  by (simp add: checkout_referral_db demo_commission_def)

section \<open>The commission amount\<close>

subsection \<open>Rounding to a double\<close>

lemma round_half_even_error: "\<bar>of_int (round_half_even y) - y\<bar> \<le> 1 / 2"
proof -
  have "of_int \<lfloor>y\<rfloor> \<le> y" "y < of_int \<lfloor>y\<rfloor> + 1" by linarith+
  then show ?thesis
    unfolding round_half_even_def Let_def by (auto simp: abs_le_iff) 
qed

lemma ilog2_lower: assumes "0 < x" shows "2 powi (ilog2 x) \<le> x"
proof (cases "1 \<le> x")
  case True
  then have p: "0 < \<lfloor>x\<rfloor>" by linarith
  have b: "0 \<le> bitlen \<lfloor>x\<rfloor> - 1" using p by (simp add: bitlen_alt_def) 
  have "(2::int) ^ nat (bitlen \<lfloor>x\<rfloor> - 1) \<le> \<lfloor>x\<rfloor>" using bitlen_bounds[OF p] by simp
  then have "(of_int ((2::int) ^ nat (bitlen \<lfloor>x\<rfloor> - 1)) :: rat) \<le> of_int \<lfloor>x\<rfloor>"
    by (simp only: of_int_le_iff)
  also have "\<dots> \<le> x" by simp
  finally have "(2::rat) ^ nat (bitlen \<lfloor>x\<rfloor> - 1) \<le> x" by simp
  then show ?thesis using True b by (simp add: ilog2_def power_int_def)
next
  case False
  let ?m = "\<lceil>1 / x\<rceil>"
  have y: "1 < 1 / x" using False assms by simp
  then have m: "0 < ?m - 1" by linarith
  have "of_int ?m - 1 < 1 / x" by linarith
  have "?m - 1 < 2 ^ nat (bitlen (?m - 1))" using bitlen_bounds[OF m] by simp
  then have "?m \<le> 2 ^ nat (bitlen (?m - 1))" by linarith
  then have "(of_int ?m :: rat) \<le> of_int (2 ^ nat (bitlen (?m - 1)))"
    by (simp only: of_int_le_iff)
  then have "(of_int ?m :: rat) \<le> 2 ^ nat (bitlen (?m - 1))" by simp
  moreover have "1 / x \<le> of_int ?m" by simp
  ultimately have "1 / x \<le> 2 ^ nat (bitlen (?m - 1))" by linarith
  then have "1 / 2 ^ nat (bitlen (?m - 1)) \<le> x"
    using assms by (simp add: field_simps)
  moreover have "2 powi (- bitlen (?m - 1)) = (1::rat) / 2 ^ nat (bitlen (?m - 1))"
    using bitlen_nonneg[of "?m - 1"] by (simp add: power_int_def field_simps)
  ultimately show ?thesis using False by (simp add: ilog2_def)
qed

lemma ilog2_upper: assumes "0 < x" shows "x < 2 powi (ilog2 x + 1)"
proof (cases "1 \<le> x")
  case True
  then have p: "0 < \<lfloor>x\<rfloor>" by linarith
  have b: "0 \<le> bitlen \<lfloor>x\<rfloor>" by (rule bitlen_nonneg)
  have "\<lfloor>x\<rfloor> < 2 ^ nat (bitlen \<lfloor>x\<rfloor>)" using bitlen_bounds[OF p] by simp
  then have "\<lfloor>x\<rfloor> + 1 \<le> 2 ^ nat (bitlen \<lfloor>x\<rfloor>)" by linarith
  then have "(of_int (\<lfloor>x\<rfloor> + 1) :: rat) \<le> of_int (2 ^ nat (bitlen \<lfloor>x\<rfloor>))"
    by (simp only: of_int_le_iff)
  moreover have "x < of_int (\<lfloor>x\<rfloor> + 1)" by linarith
  ultimately have "x < 2 ^ nat (bitlen \<lfloor>x\<rfloor>)" by simp
  then show ?thesis using True b by (simp add: ilog2_def power_int_def)
next
  case False
  let ?m = "\<lceil>1 / x\<rceil>"
  let ?b = "bitlen (?m - 1)"
  have y: "1 < 1 / x" using False assms by simp
  then have m: "0 < ?m - 1" by linarith
  have b1: "1 \<le> ?b" using m by (simp add: bitlen_alt_def)
  have "2 ^ nat (?b - 1) \<le> ?m - 1" using bitlen_bounds[OF m] by simp
  then have "(of_int (2 ^ nat (?b - 1)) :: rat) \<le> of_int (?m - 1)"
    by (simp only: of_int_le_iff)
  moreover have "of_int (?m - 1) < 1 / x" by linarith
  ultimately have "(2::rat) ^ nat (?b - 1) < 1 / x" by simp
  then have "x < 1 / 2 ^ nat (?b - 1)"
    using assms by (simp add: field_simps)
  moreover have "2 powi (- ?b + 1) = (1::rat) / 2 ^ nat (?b - 1)"
  proof (cases "?b = 1")
    case True then show ?thesis by simp
  next
    case False
    with b1 have "- ?b + 1 < 0" by simp
    then show ?thesis by (simp add: power_int_def field_simps nat_diff_distrib)
  qed
  ultimately show ?thesis using False by (simp add: ilog2_def)
qed

lemma fl_error:
  assumes "1 / 2 ^ 1022 \<le> x"
  shows "\<bar>fl x - x\<bar> \<le> x / 2 ^ 53"
proof -
  have "(0::rat) < 1 / 2 ^ 1022" by simp
  with assms have pos: "0 < x" by linarith
  have l: "- 1022 \<le> ilog2 x"
  proof (rule ccontr)
    assume "\<not> - 1022 \<le> ilog2 x"
    then have "ilog2 x + 1 \<le> - 1022" by simp
    then have "(2::rat) powi (ilog2 x + 1) \<le> 2 powi (- 1022)"
      by (intro power_int_increasing) simp_all
    with ilog2_upper[OF pos] have "x < 2 powi (- 1022)" by linarith
    moreover have "(2::rat) powi (- 1022) = 1 / 2 ^ 1022" by (simp add: power_int_def field_simps)
    ultimately show False using assms by simp
  qed
  define u :: rat where "u = 2 powi (ilog2 x - 52)"
  have u: "0 < u" by (simp add: u_def)
  have ax: "\<bar>x\<bar> = x" using pos by simp
  have m: "max (ilog2 x - 52) (- 1074) = ilog2 x - 52" using l by simp
  have "x \<noteq> 0" using pos by simp
  then have "fl x = (let e = max (ilog2 \<bar>x\<bar> - 52) (- 1074); u = 2 powi e
                     in of_int (round_half_even (x / u)) * u)"
    by (simp only: fl_def if_False)
  then have f: "fl x = of_int (round_half_even (x / u)) * u"
    unfolding Let_def ax m u_def .
  have "u * 2 ^ 52 = 2 powi (ilog2 x)"
    by (simp add: u_def power_int_diff)
  with ilog2_lower[OF pos] have ux: "u * 2 ^ 52 \<le> x" by simp
  have "fl x - x = (of_int (round_half_even (x / u)) - x / u) * u"
    using u by (simp add: f algebra_simps)
  then have "\<bar>fl x - x\<bar> = \<bar>of_int (round_half_even (x / u)) - x / u\<bar> * u"
    using u by (simp add: abs_mult)
  also have "\<dots> \<le> 1 / 2 * u"
    using round_half_even_error[of "x / u"] u by (intro mult_right_mono) simp_all
  also have "\<dots> \<le> x / 2 ^ 53" using ux by (simp add: field_simps)
  finally show ?thesis .
qed

definition eps :: rat where "eps = 1 / 2 ^ 53"

lemma eps_pos: "0 < eps" "eps < 1" by (simp_all add: eps_def)

lemma fl_zero [simp]: "fl 0 = 0" by (simp add: fl_def)

lemma fl_scaled:
  assumes r: "1 \<le> r" and c1: "1 / 2 ^ 1022 \<le> c1" and lo: "r * c1 \<le> x" and hi: "x \<le> r * c2"
  shows "r * (c1 * (1 - eps)) \<le> fl x \<and> fl x \<le> r * (c2 * (1 + eps))"
proof -
  have "(0::rat) < 1 / 2 ^ 1022" by simp
  with c1 have c1p: "0 < c1" by linarith
  have "c1 \<le> r * c1" using r c1p by simp
  then have x: "1 / 2 ^ 1022 \<le> x" using c1 lo by linarith
  then have xp: "0 < x" using c1p \<open>c1 \<le> r * c1\<close> lo by linarith
  from fl_error[OF x] have e: "\<bar>fl x - x\<bar> \<le> x * eps" by (simp add: eps_def)
  have "x * (1 - eps) \<le> fl x" using e by (simp add: algebra_simps abs_le_iff)
  moreover have "r * c1 * (1 - eps) \<le> x * (1 - eps)"
    using lo eps_pos by (intro mult_right_mono) simp_all
  ultimately have a: "r * (c1 * (1 - eps)) \<le> fl x" by (simp add: mult.assoc)
  have "fl x \<le> x * (1 + eps)" using e by (simp add: algebra_simps abs_le_iff)
  moreover have "x * (1 + eps) \<le> r * c2 * (1 + eps)"
    using hi eps_pos by (intro mult_right_mono) simp_all
  ultimately have b: "fl x \<le> r * (c2 * (1 + eps))" by (simp add: mult.assoc)
  from a b show ?thesis ..
qed

lemma fl_015: "fl (15 / 100) = 5404319552844595 / 36028797018963968"
  by code_simp

lemma scale_bounds:
  assumes "0 \<le> (k::rat)" and "r * c1 \<le> x" and "x \<le> r * c2"
  shows "r * (c1 * k) \<le> x * k" and "x * k \<le> r * (c2 * k)"
proof -
  have "r * c1 * k \<le> x * k" using assms by (intro mult_right_mono)
  then show "r * (c1 * k) \<le> x * k" by (simp add: mult.assoc)
  have "x * k \<le> r * c2 * k" using assms by (intro mult_right_mono)
  then show "x * k \<le> r * (c2 * k)" by (simp add: mult.assoc)
qed

definition B015 :: rat where "B015 = 5404319552844595 / 36028797018963968"

lemma fl_015': "fl (15 / 100) = B015"
  unfolding B015_def by (rule fl_015)

text \<open>Bounds on the amount in major units.\<close>

lemma amount_bounds:
  assumes r: "1 \<le> (r::rat)"
  shows "r * (1 * (1 - eps) * (1 / 100) * (1 - eps)) \<le> js_div (fl r) 100
       \<and> js_div (fl r) 100 \<le> r * (1 * (1 + eps) * (1 / 100) * (1 + eps))"
proof -
  have 0: "r * (1 * (1 - eps)) \<le> fl r \<and> fl r \<le> r * (1 * (1 + eps))"
    by (rule fl_scaled[OF assms]) simp_all
  have 1: "r * (1 * (1 - eps) * (1 / 100)) \<le> fl r * (1 / 100)"
    "fl r * (1 / 100) \<le> r * (1 * (1 + eps) * (1 / 100))"
    using scale_bounds[of "1 / 100" r "1 * (1 - eps)" "fl r" "1 * (1 + eps)"] 0 by simp_all
  have c: "1 / 2 ^ 1022 \<le> 1 * (1 - eps) * (1 / 100)" by (simp add: eps_def)
  have "js_div (fl r) 100 = fl (fl r * (1 / 100))" by (simp add: js_div_def)
  then show ?thesis using fl_scaled[OF r c 1] by simp
qed

lemma product_bounds:
  assumes r: "1 \<le> (r::rat)"
  shows "r * (1 * (1 - eps) * (1 / 100) * (1 - eps) * B015 * (1 - eps) * 100 * (1 - eps))
           \<le> js_mul (js_mul (js_div (fl r) 100) (fl (15 / 100))) 100
       \<and> js_mul (js_mul (js_div (fl r) 100) (fl (15 / 100))) 100
           \<le> r * (1 * (1 + eps) * (1 / 100) * (1 + eps) * B015 * (1 + eps) * 100 * (1 + eps))"
proof -
  let ?p = "js_div (fl r) 100"
  note a = amount_bounds[OF r]
  have Bp: "0 \<le> B015" by (simp add: B015_def)
  note 2 = scale_bounds[OF Bp a[THEN conjunct1] a[THEN conjunct2]]
  have c2: "1 / 2 ^ 1022 \<le> 1 * (1 - eps) * (1 / 100) * (1 - eps) * B015"
    by (simp add: eps_def B015_def)
  note b = fl_scaled[OF r c2 2]
  have h: "0 \<le> (100::rat)" by simp
  note 3 = scale_bounds[OF h b[THEN conjunct1] b[THEN conjunct2]]
  have c3: "1 / 2 ^ 1022 \<le> 1 * (1 - eps) * (1 / 100) * (1 - eps) * B015 * (1 - eps) * 100"
    by (simp add: eps_def B015_def)
  from fl_scaled[OF r c3 3] show ?thesis
    unfolding js_mul_def fl_015' .
qed

lemma const_bounds:
  "3 / 20 - 1 / 10 ^ 15 \<le> 1 * (1 - eps) * (1 / 100) * (1 - eps) * B015 * (1 - eps) * 100 * (1 - eps)"
  "1 * (1 + eps) * (1 / 100) * (1 + eps) * B015 * (1 + eps) * 100 * (1 + eps) \<le> 3 / 20 + 1 / 10 ^ 15"
  unfolding eps_def B015_def by simp_all

lemma product_near:
  assumes r: "1 \<le> (r::rat)"
  shows "r * (3 / 20 - 1 / 10 ^ 15) \<le> js_mul (js_mul (js_div (fl r) 100) (fl (15 / 100))) 100
       \<and> js_mul (js_mul (js_div (fl r) 100) (fl (15 / 100))) 100 \<le> r * (3 / 20 + 1 / 10 ^ 15)"
proof -
  have rp: "0 \<le> r" using r by simp
  from product_bounds[OF r] mult_left_mono[OF const_bounds(1) rp] mult_left_mono[OF const_bounds(2) rp]
  show ?thesis by linarith
qed

lemma pg_decimal_near:
  assumes x: "0 \<le> x" and n: "0 \<le> n"
    and lo: "of_int n - 1 / 2 \<le> x * 100" and hi: "x * 100 < of_int n + 1 / 2"
  shows "pg_decimal_10_2 x = (if 10 ^ 10 \<le> n then Inl NumericOutOfRange else Inr (of_int n / 100))"
proof -
  have "\<lfloor>x * 100 + 1 / 2\<rfloor> = n" using lo hi by (intro floor_unique) simp_all
  then show ?thesis using x n by (simp add: pg_decimal_10_2_def Let_def)
qed

lemma amount_const_bounds:
  "1 - 1 / 10 ^ 15 \<le> 1 * (1 - eps) * (1 / 100) * (1 - eps) * 100"
  "1 * (1 + eps) * (1 / 100) * (1 + eps) * 100 \<le> 1 + 1 / 10 ^ 15"
  unfolding eps_def by simp_all

lemma amount_near:
  assumes r: "1 \<le> (r::rat)"
  shows "r * (1 - 1 / 10 ^ 15) \<le> js_div (fl r) 100 * 100
       \<and> js_div (fl r) 100 * 100 \<le> r * (1 + 1 / 10 ^ 15)"
proof -
  have rp: "0 \<le> r" using r by simp
  note a = amount_bounds[OF r]
  have h: "0 \<le> (100::rat)" by simp
  note s = scale_bounds[OF h a[THEN conjunct1] a[THEN conjunct2]]
  from s mult_left_mono[OF amount_const_bounds(1) rp] mult_left_mono[OF amount_const_bounds(2) rp]
  show ?thesis by linarith
qed

lemma js_div_zero [simp]: "js_div 0 y = 0" by (simp add: js_div_def)
lemma js_mul_zero [simp]: "js_mul 0 y = 0" by (simp add: js_mul_def)

lemma floor_half [simp]: "\<lfloor>1 / 2 :: rat\<rfloor> = 0"
  by (rule floor_unique) simp_all

lemma pg_decimal_zero [simp]: "pg_decimal_10_2 0 = Inr 0"
  by (simp add: pg_decimal_10_2_def)

lemma sale_row:
  assumes "pg_decimal_10_2 (js_div (fl (of_nat a)) 100) = Inr sale"
  shows "sale = of_nat a / 100 \<and> a < 10 ^ 10"
proof (cases "a = 0")
  case True
  with assms show ?thesis by simp
next
  case False
  define r :: rat where "r = of_nat a"
  have r: "1 \<le> r" using False by (simp add: r_def)
  let ?p = "js_div (fl r) 100"
  note b = amount_near[OF r]
  have p0: "0 \<le> ?p"
  proof -
    have "0 \<le> r * (1 - 1 / 10 ^ 15)" using r by simp
    with b have "0 \<le> ?p * 100" by linarith
    then show ?thesis by simp
  qed
  have small: "a < 10 ^ 10"
  proof (rule ccontr)
    assume "\<not> a < 10 ^ 10"
    then have "(10::nat) ^ 10 \<le> a" by simp
    then have "(of_nat ((10::nat) ^ 10) :: rat) \<le> of_nat a" by (simp only: of_nat_le_iff)
    then have big: "(10::rat) ^ 10 \<le> r" by (simp add: r_def)
    have "(10::rat) ^ 10 - 1 / 2 \<le> r * (1 - 1 / 10 ^ 15)" using big by simp
    with b have "(10::rat) ^ 10 \<le> ?p * 100 + 1 / 2" by linarith
    then have "of_int (10 ^ 10) \<le> ?p * 100 + 1 / 2" by simp
    then have "10 ^ 10 \<le> \<lfloor>?p * 100 + 1 / 2\<rfloor>" by (simp only: le_floor_iff)
    then have "pg_decimal_10_2 ?p = Inl NumericOutOfRange"
      using p0 by (simp add: pg_decimal_10_2_def Let_def)
    with assms show False by (simp add: r_def)
  qed
  then have "(of_nat a :: rat) < of_nat (10 ^ 10)" by (simp only: of_nat_less_iff)
  then have rs: "r < 10 ^ 10" by (simp add: r_def)
  have e: "r * (1 / 10 ^ 15) < 1 / 2" using rs r by simp
  have lo: "of_int (int a) - 1 / 2 \<le> ?p * 100" using b e by (simp add: r_def algebra_simps)
  have hi: "?p * 100 < of_int (int a) + 1 / 2" using b e by (simp add: r_def algebra_simps)
  from pg_decimal_near[OF p0 _ lo hi] small assms show ?thesis by (simp add: r_def)
qed

lemma comm_row:
  assumes small: "a < 10 ^ 10"
    and c: "pg_decimal_10_2 (commissionAmount (js_div (fl (of_nat a)) 100)) = Inr comm"
  shows "\<exists>k. comm = of_int k / 100 \<and> \<bar>20 * k - 3 * int a\<bar> \<le> 10"
proof (cases "a = 0")
  case True
  have "comm = 0" using c True by (simp add: commissionAmount_def Math_round_def)
  then show ?thesis using True by (intro exI[of _ 0]) simp
next
  case False
  define r :: rat where "r = of_nat a"
  have r: "1 \<le> r" using False by (simp add: r_def)
  have "(of_nat a :: rat) < of_nat (10 ^ 10)" using small by (simp only: of_nat_less_iff)
  then have rs: "r < 10 ^ 10" by (simp add: r_def)
  define y where "y = js_mul (js_mul (js_div (fl r) 100) (fl (15 / 100))) 100"
  define k where "k = Math_round y"
  note b = product_near[OF r, folded y_def]
  have e: "r * (1 / 10 ^ 15) < 1 / 10 ^ 5" using rs r by simp
  have ylo: "r * (3 / 20) - 1 / 10 ^ 5 < y" and yhi: "y < r * (3 / 20) + 1 / 10 ^ 5"
    using b e by (simp_all add: algebra_simps)
  have k1: "of_int k \<le> y + 1 / 2" and k2: "y + 1 / 2 < of_int k + 1"
    unfolding k_def Math_round_def by linarith+
  have y0: "0 \<le> y"
  proof -
    have "0 \<le> r * (3 / 20 - 1 / 10 ^ 15)" using r by simp
    with b show ?thesis by linarith
  qed
  have k0: "0 \<le> k" unfolding k_def Math_round_def using y0 by simp
  have "of_int (20 * k - 3 * int a) < (10 :: rat) + 1"
    using k1 yhi by (simp add: r_def algebra_simps)
  then have "of_int (20 * k - 3 * int a) < (of_int 11 :: rat)" by simp
  then have u: "20 * k - 3 * int a < 11" by (simp only: of_int_less_iff)
  have "(- 10 :: rat) - 1 < of_int (20 * k - 3 * int a)"
    using k2 ylo by (simp add: r_def algebra_simps)
  then have "(of_int (- 11) :: rat) < of_int (20 * k - 3 * int a)" by simp
  then have l: "- 11 < 20 * k - 3 * int a" by (simp only: of_int_less_iff)
  have near: "\<bar>20 * k - 3 * int a\<bar> \<le> 10" using u l by simp
  have ks: "k < 2 * 10 ^ 9" using near small by simp
  let ?q = "js_div (of_int k) 100"
  have q: "pg_decimal_10_2 ?q = Inr (of_int k / 100)"
  proof (cases "k = 0")
    case True
    then show ?thesis by simp
  next
    case False
    with k0 have kr: "1 \<le> (of_int k :: rat)" by simp
    have c1: "1 / 2 ^ 1022 \<le> (1 / 100 :: rat)" by simp
    have "of_int k * (1 / 100 * (1 - eps)) \<le> ?q \<and> ?q \<le> of_int k * (1 / 100 * (1 + eps))"
      unfolding js_div_def by (rule fl_scaled[OF kr c1]) simp_all
    then have ql: "of_int k * (1 - eps) \<le> ?q * 100" and qh: "?q * 100 \<le> of_int k * (1 + eps)"
      by simp_all
    have "(of_int k :: rat) < of_int (2 * 10 ^ 9)" using ks by (simp only: of_int_less_iff)
    then have "(of_int k :: rat) < 2 * 10 ^ 9" by simp
    then have ke: "of_int k * eps < 1 / 2" using kr by (simp add: eps_def)
    have q0: "0 \<le> ?q"
    proof -
      have "0 \<le> of_int k * (1 - eps)" using kr eps_pos by simp
      with ql have "0 \<le> ?q * 100" by linarith
      then show ?thesis by simp
    qed
    have lo: "of_int k - 1 / 2 \<le> ?q * 100" using ql ke by (simp add: algebra_simps)
    have hi: "?q * 100 < of_int k + 1 / 2" using qh ke by (simp add: algebra_simps)
    from pg_decimal_near[OF q0 k0 lo hi] ks show ?thesis by simp
  qed
  have "commissionAmount (js_div (fl (of_nat a)) 100) = ?q"
    by (simp add: commissionAmount_def k_def y_def r_def)
  with c q have "comm = of_int k / 100" by simp
  with near show ?thesis by blast
qed


subsection \<open>The stored amounts\<close>

text \<open>
  The spec's \<^verbatim>\<open>round(x, 2)\<close>: the nearest multiple of one hundredth, a tie going up.
\<close>

definition round_2_places :: "rat \<Rightarrow> rat" where
  "round_2_places x = of_int \<lfloor>x * 100 + 1 / 2\<rfloor> / 100"

definition amount_total_or_0 :: "checkout_session \<Rightarrow> nat" where
  "amount_total_or_0 s = (case cs_amount_total s of None \<Rightarrow> 0 | Some a \<Rightarrow> a)"

lemma frac_half: "x = of_int n + 1 / 2 \<Longrightarrow> frac x = (1 / 2 :: rat)"
proof -
  assume x: "x = of_int n + 1 / 2"
  have "\<lfloor>x\<rfloor> = n" unfolding x by (rule floor_unique) simp_all
  then show ?thesis by (simp add: frac_def x)
qed

lemma nearest_cent:
  assumes near: "\<bar>20 * k - 3 * int a\<bar> \<le> 10"
  shows "\<bar>of_int k / 100 - of_nat a / 100 * (15 / 100)\<bar> \<le> (1 / 200 :: rat)"
    and "frac (of_nat a / 100 * 15 :: rat) \<noteq> 1 / 2 \<Longrightarrow>
           of_int k / 100 = round_2_places (of_nat a / 100 * (15 / 100))"
proof -
  have "\<bar>of_int (20 * k - 3 * int a)\<bar> \<le> (of_int 10 :: rat)"
    using near by (simp only: of_int_abs[symmetric] of_int_le_iff)
  then have r: "\<bar>20 * of_int k - 3 * of_nat a\<bar> \<le> (10 :: rat)" by simp
  have a1: "of_int k / 100 - of_nat a / 100 * (15 / 100) = (20 * of_int k - 3 * of_nat a) / (2000 :: rat)"
    by (simp add: field_simps)
  have a2: "\<bar>(20 * of_int k - 3 * of_nat a) / (2000 :: rat)\<bar> \<le> 1 / 200"
    using r by (simp add: abs_le_iff)
  show "\<bar>of_int k / 100 - of_nat a / 100 * (15 / 100)\<bar> \<le> (1 / 200 :: rat)"
    unfolding a1 by (rule a2)
  assume nt: "frac (of_nat a / 100 * 15 :: rat) \<noteq> 1 / 2"
  have x: "(of_nat a / 100 * 15 :: rat) = of_int (3 * int a) / 20" by simp
  have "20 * k - 3 * int a \<noteq> 10"
  proof
    assume "20 * k - 3 * int a = 10"
    then have "3 * int a = 20 * (k - 1) + 10" by simp
    then have "(of_nat a / 100 * 15 :: rat) = of_int (k - 1) + 1 / 2"
      unfolding x by simp
    from frac_half[OF this] nt show False by simp
  qed
  moreover have "20 * k - 3 * int a \<noteq> - 10"
  proof
    assume "20 * k - 3 * int a = - 10"
    then have "3 * int a = 20 * k + 10" by simp
    then have "(of_nat a / 100 * 15 :: rat) = of_int k + 1 / 2"
      unfolding x by simp
    from frac_half[OF this] nt show False by simp
  qed
  ultimately have "\<bar>20 * k - 3 * int a\<bar> \<le> 9" using near by simp
  then have "\<bar>of_int (20 * k - 3 * int a)\<bar> \<le> (of_int 9 :: rat)"
    by (simp only: of_int_abs[symmetric] of_int_le_iff)
  then have r9: "\<bar>20 * of_int k - 3 * of_nat a\<bar> \<le> (9 :: rat)" by simp
  have "\<lfloor>(of_nat a / 100 * (15 / 100)) * 100 + 1 / 2 :: rat\<rfloor> = k"
    using r9 by (intro floor_unique) (simp_all add: field_simps abs_le_iff)
  then show "of_int k / 100 = round_2_places (of_nat a / 100 * (15 / 100))"
    by (simp add: round_2_places_def)
qed

text \<open>
  For a commission row that the webhook inserts, whatever the amount of the session: the
  stored sale amount is the amount charged in major units, and the stored commission is a
  whole number of cents within half a cent of fifteen percent of the sale amount. Whenever
  fifteen percent of the sale amount is not exactly halfway between two cents, the
  commission is that product rounded to two places.
\<close>

lemma commission_row_amounts:
  assumes "affiliateCommissions (checkout_session_completed db s newId now)
             = affiliateCommissions db @ [c]"
  shows "commission_saleAmount c = of_nat (amount_total_or_0 s) / 100
       \<and> (\<exists>k :: int. commission_commissionAmount c = of_int k / 100)
       \<and> \<bar>commission_commissionAmount c - commission_saleAmount c * (15 / 100)\<bar> \<le> 1 / 200
       \<and> (frac (commission_saleAmount c * 15) \<noteq> 1 / 2 \<longrightarrow>
            commission_commissionAmount c = round_2_places (commission_saleAmount c * (15 / 100)))"
proof -
  let ?a = "amount_total_or_0 s"
  have p: "amountPaid s = js_div (fl (of_nat ?a)) 100"
    by (simp add: amountPaid_def amount_total_or_0_def)
  from checkout_effect[of db s newId now] assms
  have s: "pg_decimal_10_2 (amountPaid s) = Inr (commission_saleAmount c)"
    and m: "pg_decimal_10_2 (commissionAmount (amountPaid s)) = Inr (commission_commissionAmount c)"
    by auto
  from sale_row[OF s[unfolded p]]
  have sale: "commission_saleAmount c = of_nat ?a / 100" and small: "?a < 10 ^ 10" by simp_all
  from comm_row[OF small m[unfolded p]]
  obtain k where k: "commission_commissionAmount c = of_int k / 100"
    and near: "\<bar>20 * k - 3 * int ?a\<bar> \<le> 10" by blast
  note n = nearest_cent[OF near]
  show ?thesis unfolding sale k
  proof (intro conjI impI)
    show "\<exists>k' :: int. (of_int k / 100 :: rat) = of_int k' / 100" by blast
  qed (use n in blast)+
qed

text \<open>
  Fifteen percent of \<open>a\<close> cents is \<open>3 * a / 20\<close> cents: it is halfway between two cents
  exactly when \<open>a mod 20 = 10\<close>.
\<close>

lemma no_tie:
  assumes "a mod 20 \<noteq> (10 :: nat)"
  shows "frac (of_nat a / 100 * 15 :: rat) \<noteq> 1 / 2"
proof
  assume h: "frac (of_nat a / 100 * 15 :: rat) = 1 / 2"
  define m where "m = \<lfloor>of_nat a / 100 * 15 :: rat\<rfloor>"
  have "(of_nat a / 100 * 15 :: rat) = of_int m + 1 / 2"
    using h unfolding frac_def m_def by linarith
  then have "(of_int (3 * int a) :: rat) = of_int (20 * m + 10)" by (simp add: field_simps)
  then have "3 * int a = 20 * m + 10" by (simp only: of_int_eq_iff)
  with assms show False by presburger
qed

lemma unit_amounts:
  "map (\<lambda>p. unit_amount (snd (snd p))) CREDIT_PACKAGES = [1000, 1900, 9000, 17000, 75000, 140000]"
  unfolding CREDIT_PACKAGES_def unit_amount_def by code_simp

lemma catalogue_session_no_tie:
  assumes "catalogue_session s"
  shows "amount_total_or_0 s mod 20 \<noteq> 10"
proof -
  from assms obtain p where p: "p \<in> set CREDIT_PACKAGES"
    and a: "cs_amount_total s = Some (nat (unit_amount (snd (snd p))))"
    unfolding catalogue_session_def by blast
  from p have "unit_amount (snd (snd p)) \<in> set (map (\<lambda>p. unit_amount (snd (snd p))) CREDIT_PACKAGES)"
    by simp
  then have "unit_amount (snd (snd p)) \<in> {1000, 1900, 9000, 17000, 75000, 140000}"
    unfolding unit_amounts by simp
  then show ?thesis using a by (auto simp: amount_total_or_0_def)
qed

lemma round_2_places_19: "round_2_places (19 * (15 / 100)) = 285 / 100"
  unfolding round_2_places_def by code_simp

text \<open>
  C3. For a commission row that the webhook inserts for a session of the catalogue (and
  for any session whose fifteen percent is not exactly halfway between two cents), the
  stored sale amount is the amount charged in major units and the stored commission
  amount is the sale amount times 0.15 rounded to two decimal places; a sale amount of
  19.00 gives a commission of 2.85.
\<close>

theorem commission_amount_rounded:
  assumes "affiliateCommissions (checkout_session_completed db s newId now)
             = affiliateCommissions db @ [c]"
    and "catalogue_session s \<or> amount_total_or_0 s mod 20 \<noteq> 10"
  shows "commission_saleAmount c = of_nat (amount_total_or_0 s) / 100
       \<and> commission_commissionAmount c = round_2_places (commission_saleAmount c * (15 / 100))
       \<and> (commission_saleAmount c = 19 \<longrightarrow> commission_commissionAmount c = 285 / 100)"
proof -
  have nt: "amount_total_or_0 s mod 20 \<noteq> 10"
    using assms(2) catalogue_session_no_tie by blast
  note r = commission_row_amounts[OF assms(1)]
  from r have sale: "commission_saleAmount c = of_nat (amount_total_or_0 s) / 100" by blast
  have "frac (commission_saleAmount c * 15) \<noteq> 1 / 2"
    unfolding sale by (rule no_tie[OF nt])
  with r have c: "commission_commissionAmount c
      = round_2_places (commission_saleAmount c * (15 / 100))" by blast
  have "commission_saleAmount c = 19 \<longrightarrow> commission_commissionAmount c = 285 / 100"
    using c round_2_places_19 by simp
  with sale c show ?thesis by blast
qed

lemma checkout_referral_amount:
  assumes "pg_decimal_10_2 (js_div (fl (of_nat a)) 100) = Inr sale"
    and "pg_decimal_10_2 (commissionAmount (js_div (fl (of_nat a)) 100)) = Inr comm"
  shows "checkout_session_completed referral_db (demo_session\<lparr>cs_amount_total := Some a\<rparr>)
           ''comm_1'' demo_date
     = \<lparr>users = [alice\<lparr>user_credits := Some 0\<rparr>, bob],
        creditPurchases = [demo_purchase\<lparr>purchase_amount := sale\<rparr>], orders = [],
        affiliateClicks = [],
        affiliateCommissions =
          [demo_commission\<lparr>commission_saleAmount := sale, commission_commissionAmount := comm\<rparr>]\<rparr>"
proof -
  have p: "amountPaid (demo_session\<lparr>cs_amount_total := Some a\<rparr>) = js_div (fl (of_nat a)) 100"
    by (simp add: amountPaid_def)
  show ?thesis
    by (simp add: checkout_session_completed_def demo_session_def[THEN arg_cong, of cs_metadata]
      demo_session_def[THEN arg_cong, of cs_id] referral_db_def getUser_def alice_def bob_def
      demo_parseInt addCredits_def int4_def createCreditPurchase_def
      createAffiliateCommission_def
      p assms demo_monthKey demo_purchase_def demo_commission_def Let_def)
qed

theorem commission_amount_rounded_witness:
  "affiliateCommissions (checkout_session_completed referral_db demo_session ''comm_1'' demo_date)
     = affiliateCommissions referral_db @ [demo_commission]
   \<and> catalogue_session demo_session
   \<and> commission_saleAmount demo_commission = 19
   \<and> commission_commissionAmount demo_commission = round_2_places (19 * (15 / 100))
   \<and> commission_commissionAmount demo_commission = 285 / 100"
proof -
  have e: "affiliateCommissions referral_db = []" by (simp add: referral_db_def)
  have a: "affiliateCommissions (checkout_session_completed referral_db demo_session ''comm_1'' demo_date)
     = affiliateCommissions referral_db @ [demo_commission]"
    unfolding checkout_referral_db e by simp
  have s: "commission_saleAmount demo_commission = 19"
    by (simp add: demo_commission_def)
  have "unit_amount 19 = 1900" unfolding unit_amount_def by code_simp
  then have k: "catalogue_session demo_session"
    by (simp add: catalogue_session_def CREDIT_PACKAGES_def demo_session_def)
  from commission_amount_rounded [OF a disjI1[OF k]] s
  have "commission_commissionAmount demo_commission = round_2_places (19 * (15 / 100))"
    "commission_commissionAmount demo_commission = 285 / 100"
    by simp_all
  with a k s show ?thesis by simp
qed

text \<open>
  The hypothesis on the amount is needed. No session of the catalogue charges 3.30, but
  for such a session fifteen percent is 0.495, exactly halfway between two cents; the
  product of the doubles lies below it, and the stored commission is 0.49.
\<close>

lemma amounts_330:
  "pg_decimal_10_2 (js_div (fl 330) 100) = Inr (33 / 10)"
  "pg_decimal_10_2 (commissionAmount (js_div (fl 330) 100)) = Inr (49 / 100)"
  unfolding commissionAmount_def by code_simp+

lemma half_cent_example:
  "commission_saleAmount
     (last (affiliateCommissions
        (checkout_session_completed referral_db (demo_session\<lparr>cs_amount_total := Some 330\<rparr>)
           ''comm_1'' demo_date))) = 33 / 10
   \<and> commission_commissionAmount
     (last (affiliateCommissions
        (checkout_session_completed referral_db (demo_session\<lparr>cs_amount_total := Some 330\<rparr>)
           ''comm_1'' demo_date))) = 49 / 100
   \<and> round_2_places (33 / 10 * (15 / 100)) = 50 / 100"
proof -
  have r: "round_2_places (33 / 10 * (15 / 100)) = 50 / 100"
    unfolding round_2_places_def by code_simp
  have a: "pg_decimal_10_2 (js_div (fl (of_nat 330)) 100) = Inr (33 / 10)"
    "pg_decimal_10_2 (commissionAmount (js_div (fl (of_nat 330)) 100)) = Inr (49 / 100)"
    using amounts_330 by simp_all
  show ?thesis unfolding checkout_referral_amount[OF a] using r by simp
qed


section \<open>The admin page: monthly bills\<close>

text \<open>
  A pending commission as the admin page receives it, with the affiliate joined in.
  \<open>'n\<close> is the type of JavaScript numbers: the page adds amounts with the language's
  \<^verbatim>\<open>+\<close>, and the model takes that addition (and its zero) from the type, so that what
  is proved holds for any addition, associative or not. \<^verbatim>\<open>parseFloat(x.toString())\<close>
  of a number is that number. \<open>pc_createdAt\<close> is \<^verbatim>\<open>new Date(commission.createdAt)\<close>.
\<close>

record affiliate_info =
  aff_id :: string
  aff_firstName :: string
  aff_lastName :: string
  aff_email :: string
  aff_paypalEmail :: "string option"

record 'n pending_commission =
  pc_id :: string
  pc_affiliateUserId :: string
  pc_referredUserId :: string
  pc_saleAmount :: 'n
  pc_commissionAmount :: 'n
  pc_paymentMonth :: string
  pc_status :: string
  pc_createdAt :: js_date
  pc_affiliate :: affiliate_info

text \<open>
  The four running fields that a monthly bill and an affiliate sub-group share, and the
  two kinds of group.
\<close>

record 'n totals =
  totalCommissions :: 'n
  totalSales :: 'n
  transactionCount :: nat
  commissionIds :: "string list"

record 'n affiliate_group = "'n totals" +
  affiliate :: affiliate_info

record 'n monthly_bill = "'n totals" +
  month :: string
  monthName :: string
  affiliates :: "(string \<times> 'n affiliate_group) list"

text \<open>
  \<^verbatim>\<open>toLocaleDateString('en-US', { year: 'numeric', month: 'long' })\<close>.
\<close>

definition month_long :: "nat \<Rightarrow> string" where
  "month_long m =
     [''January'', ''February'', ''March'', ''April'', ''May'', ''June'', ''July'', ''August'',
      ''September'', ''October'', ''November'', ''December''] ! m"

definition monthName_of :: "js_date \<Rightarrow> string" where
  "monthName_of d = month_long (getMonth d) @ '' '' @ show_nat (getFullYear d)"

text \<open>
  One step of the \<^verbatim>\<open>reduce\<close>. The accumulator is a JavaScript object used as a
  dictionary; keys that are not array indices (month keys, and user ids of the form
  \<^verbatim>\<open>user_...\<close>) are enumerated in insertion order, so it is an association list:
  \<open>AList.update\<close> replaces the value of a present key in place and appends an absent
  key. The object is mutated in place in the source; here the updated group is written
  back.
\<close>

definition reduce_step ::
  "(string \<times> 'n::{zero,plus} monthly_bill) list \<Rightarrow> 'n pending_commission
     \<Rightarrow> (string \<times> 'n monthly_bill) list" where
  "reduce_step acc commission =
     (let commissionDate = pc_createdAt commission;
          monthKey = monthKey commissionDate;
          bill0 = (case map_of acc monthKey of
                     None \<Rightarrow>
                       \<lparr>totalCommissions = 0, totalSales = 0, transactionCount = 0,
                        commissionIds = [], month = monthKey,
                        monthName = monthName_of commissionDate, affiliates = []\<rparr>
                   | Some b \<Rightarrow> b);
          bill1 = bill0\<lparr>totalCommissions := totalCommissions bill0 + pc_commissionAmount commission,
                        totalSales := totalSales bill0 + pc_saleAmount commission,
                        transactionCount := transactionCount bill0 + 1,
                        commissionIds := commissionIds bill0 @ [pc_id commission]\<rparr>;
          affiliateId = aff_id (pc_affiliate commission);
          group0 = (case map_of (affiliates bill1) affiliateId of
                      None \<Rightarrow>
                        \<lparr>totalCommissions = 0, totalSales = 0, transactionCount = 0,
                         commissionIds = [], affiliate = pc_affiliate commission\<rparr>
                    | Some g \<Rightarrow> g);
          group1 = group0\<lparr>totalCommissions := totalCommissions group0 + pc_commissionAmount commission,
                          totalSales := totalSales group0 + pc_saleAmount commission,
                          transactionCount := transactionCount group0 + 1,
                          commissionIds := commissionIds group0 @ [pc_id commission]\<rparr>
      in AList.update monthKey
           (bill1\<lparr>affiliates := AList.update affiliateId group1 (affiliates bill1)\<rparr>) acc)"

text \<open>
  \<^verbatim>\<open>a.localeCompare(b)\<close> on month keys, which consist of digits and a hyphen: the
  order of the character codes.
\<close>

definition localeCompare :: "string \<Rightarrow> string \<Rightarrow> int" where
  "localeCompare a b = (if a < b then - 1 else if a = b then 0 else 1)"

text \<open>
  \<^verbatim>\<open>Array.prototype.sort\<close> with a comparator: a stable sort, here by insertion.
\<close>

fun insert_by :: "('a \<Rightarrow> 'a \<Rightarrow> int) \<Rightarrow> 'a \<Rightarrow> 'a list \<Rightarrow> 'a list" where
  "insert_by cmp x [] = [x]"
| "insert_by cmp x (y # ys) = (if cmp x y \<le> 0 then x # y # ys else y # insert_by cmp x ys)"

definition sort_by :: "('a \<Rightarrow> 'a \<Rightarrow> int) \<Rightarrow> 'a list \<Rightarrow> 'a list" where
  "sort_by cmp xs = foldr (insert_by cmp) xs []"

text \<open>
  \<^verbatim>\<open>getMonthlyBills\<close>; \<open>None\<close> is the query result that has not arrived yet.
\<close>

definition getMonthlyBills ::
  "'n::{zero,plus} pending_commission list option \<Rightarrow> 'n monthly_bill list" where
  "getMonthlyBills pendingCommissions =
     (case pendingCommissions of
        None \<Rightarrow> []
      | Some cs \<Rightarrow>
          sort_by (\<lambda>a b. localeCompare (month b) (month a))
            (map snd (foldl reduce_step [] cs)))"

subsection \<open>The grouping step in general\<close>

text \<open>A dictionary of groups, keyed by \<open>key\<close>.\<close>

definition group_step ::
  "('c \<Rightarrow> 'k) \<Rightarrow> ('c \<Rightarrow> 'v) \<Rightarrow> ('c \<Rightarrow> 'v \<Rightarrow> 'v) \<Rightarrow> ('k \<times> 'v) list \<Rightarrow> 'c \<Rightarrow> ('k \<times> 'v) list" where
  "group_step key init upd acc c =
     AList.update (key c) (upd c (case map_of acc (key c) of None \<Rightarrow> init c | Some v \<Rightarrow> v)) acc"

definition add_totals :: "'n::plus pending_commission \<Rightarrow> ('n, 'z) totals_scheme \<Rightarrow> ('n, 'z) totals_scheme" where
  "add_totals c t =
     t\<lparr>totalCommissions := totalCommissions t + pc_commissionAmount c,
       totalSales := totalSales t + pc_saleAmount c,
       transactionCount := transactionCount t + 1,
       commissionIds := commissionIds t @ [pc_id c]\<rparr>"

definition init_group :: "'n::zero pending_commission \<Rightarrow> 'n affiliate_group" where
  "init_group c =
     \<lparr>totalCommissions = 0, totalSales = 0, transactionCount = 0, commissionIds = [],
      affiliate = pc_affiliate c\<rparr>"

definition init_bill :: "'n::zero pending_commission \<Rightarrow> 'n monthly_bill" where
  "init_bill c =
     \<lparr>totalCommissions = 0, totalSales = 0, transactionCount = 0, commissionIds = [],
      month = monthKey (pc_createdAt c), monthName = monthName_of (pc_createdAt c),
      affiliates = []\<rparr>"

definition upd_bill :: "'n::{zero,plus} pending_commission \<Rightarrow> 'n monthly_bill \<Rightarrow> 'n monthly_bill" where
  "upd_bill c b =
     (add_totals c b)\<lparr>affiliates :=
        group_step (\<lambda>c. aff_id (pc_affiliate c)) init_group add_totals (affiliates b) c\<rparr>"

lemma reduce_step_group:
  "reduce_step acc c = group_step (\<lambda>c. monthKey (pc_createdAt c)) init_bill upd_bill acc c"
  unfolding reduce_step_def group_step_def upd_bill_def init_bill_def init_group_def add_totals_def Let_def
  by (cases "map_of acc (monthKey (pc_createdAt c))") simp_all

lemma foldl_reduce_step:
  "foldl reduce_step acc cs = foldl (group_step (\<lambda>c. monthKey (pc_createdAt c)) init_bill upd_bill) acc cs"
  by (induction cs arbitrary: acc) (simp_all add: reduce_step_group)

lemma group_step_keys:
  "map fst (group_step key init upd acc c)
     = (if key c \<in> set (map fst acc) then map fst acc else map fst acc @ [key c])"
  unfolding group_step_def by (induction acc) (auto simp: AList.update_def split: if_splits)

lemma group_fold_keys:
  "set (map fst (foldl (group_step key init upd) [] cs)) = key ` set cs
   \<and> distinct (map fst (foldl (group_step key init upd) [] cs))"
proof (induction cs rule: rev_induct)
  case Nil
  show ?case by simp
next
  case (snoc c cs)
  then show ?case by (auto simp: group_step_keys)
qed

lemma group_fold_value:
  "map_of (foldl (group_step key init upd) [] cs) x
     = (case filter (\<lambda>c. key c = x) cs of
          [] \<Rightarrow> None
        | c0 # r \<Rightarrow> Some (foldl (\<lambda>v c. upd c v) (init c0) (c0 # r)))"
proof (induction cs rule: rev_induct)
  case Nil
  show ?case by simp
next
  case (snoc c cs)
  show ?case
  proof (cases "key c = x")
    case False
    then show ?thesis using snoc by (simp add: group_step_def update_conv')
  next
    case True
    then show ?thesis using snoc
      by (cases "filter (\<lambda>c. key c = x) cs") (simp_all add: group_step_def update_conv')
  qed
qed

text \<open>The sum as the page accumulates it: from zero, left to right.\<close>

definition js_sum :: "'n::{zero,plus} list \<Rightarrow> 'n" where
  "js_sum xs = foldl (+) 0 xs"

lemma totals_fold:
  fixes t :: "('n::plus, 'z) totals_scheme"
  shows "totalCommissions (foldl (\<lambda>v c. add_totals c v) t ms)
           = foldl (+) (totalCommissions t) (map pc_commissionAmount ms)
       \<and> totalSales (foldl (\<lambda>v c. add_totals c v) t ms)
           = foldl (+) (totalSales t) (map pc_saleAmount ms)
       \<and> transactionCount (foldl (\<lambda>v c. add_totals c v) t ms) = transactionCount t + length ms
       \<and> commissionIds (foldl (\<lambda>v c. add_totals c v) t ms) = commissionIds t @ map pc_id ms
       \<and> totals.more (foldl (\<lambda>v c. add_totals c v) t ms) = totals.more t"
  by (induction ms arbitrary: t) (simp_all add: add_totals_def)

lemma group_fold_fields:
  fixes c0 :: "'n::{zero,plus} pending_commission"
  shows "totalCommissions (foldl (\<lambda>v c. add_totals c v) (init_group c0) ms)
           = js_sum (map pc_commissionAmount ms)
       \<and> totalSales (foldl (\<lambda>v c. add_totals c v) (init_group c0) ms)
           = js_sum (map pc_saleAmount ms)
       \<and> transactionCount (foldl (\<lambda>v c. add_totals c v) (init_group c0) ms) = length ms
       \<and> commissionIds (foldl (\<lambda>v c. add_totals c v) (init_group c0) ms) = map pc_id ms
       \<and> affiliate (foldl (\<lambda>v c. add_totals c v) (init_group c0) ms) = pc_affiliate c0"
proof -
  have "affiliate g = affiliate_group.affiliate g" for g :: "'n affiliate_group" by simp
  have m: "affiliate (foldl (\<lambda>v c. add_totals c v) t ms) = affiliate t" for t :: "'n affiliate_group"
    by (induction ms arbitrary: t) (simp_all add: add_totals_def)
  show ?thesis
    using totals_fold[of "init_group c0" ms] m[of "init_group c0"]
    by (simp add: js_sum_def init_group_def)
qed

lemma bill_fold_fields:
  fixes b :: "'n::{zero,plus} monthly_bill"
  shows "totalCommissions (foldl (\<lambda>v c. upd_bill c v) b ms)
           = foldl (+) (totalCommissions b) (map pc_commissionAmount ms)
       \<and> totalSales (foldl (\<lambda>v c. upd_bill c v) b ms)
           = foldl (+) (totalSales b) (map pc_saleAmount ms)
       \<and> transactionCount (foldl (\<lambda>v c. upd_bill c v) b ms) = transactionCount b + length ms
       \<and> commissionIds (foldl (\<lambda>v c. upd_bill c v) b ms) = commissionIds b @ map pc_id ms
       \<and> month (foldl (\<lambda>v c. upd_bill c v) b ms) = month b
       \<and> affiliates (foldl (\<lambda>v c. upd_bill c v) b ms)
           = foldl (group_step (\<lambda>c. aff_id (pc_affiliate c)) init_group add_totals) (affiliates b) ms"
  by (induction ms arbitrary: b) (simp_all add: upd_bill_def add_totals_def)

text \<open>What the dictionary holds after the \<^verbatim>\<open>reduce\<close>.\<close>

lemma reduce_bill:
  fixes cs :: "'n::{zero,plus} pending_commission list"
  assumes "(k, b) \<in> set (foldl reduce_step [] cs)"
  defines "ms \<equiv> filter (\<lambda>c. monthKey (pc_createdAt c) = k) cs"
  shows "ms \<noteq> [] \<and> month b = k
       \<and> totalCommissions b = js_sum (map pc_commissionAmount ms)
       \<and> totalSales b = js_sum (map pc_saleAmount ms)
       \<and> transactionCount b = length ms
       \<and> commissionIds b = map pc_id ms
       \<and> affiliates b = foldl (group_step (\<lambda>c. aff_id (pc_affiliate c)) init_group add_totals) [] ms"
proof -
  let ?acc = "foldl (group_step (\<lambda>c. monthKey (pc_createdAt c)) init_bill upd_bill) [] cs"
  have d: "distinct (map fst ?acc)" using group_fold_keys by blast
  have "map_of ?acc k = Some b"
    using assms(1) d by (simp add: foldl_reduce_step)
  then obtain c0 r where f: "ms = c0 # r"
    and b: "b = foldl (\<lambda>v c. upd_bill c v) (init_bill c0) (c0 # r)"
    unfolding group_fold_value ms_def by (auto split: list.splits)
  have "c0 \<in> set ms" using f by simp
  then have k: "monthKey (pc_createdAt c0) = k" unfolding ms_def by simp
  show ?thesis
    using bill_fold_fields[of "init_bill c0" ms] k
    unfolding b f[symmetric]
    by (simp add: f init_bill_def js_sum_def)
qed

lemma reduce_keys:
  "set (map fst (foldl reduce_step [] cs)) = (\<lambda>c. monthKey (pc_createdAt c)) ` set cs
   \<and> distinct (map fst (foldl reduce_step [] cs))"
  unfolding foldl_reduce_step by (rule group_fold_keys)

lemma reduce_months:
  fixes cs :: "'n::{zero,plus} pending_commission list"
  shows "map month (map snd (foldl reduce_step [] cs)) = map fst (foldl reduce_step [] cs)"
proof -
  have "\<forall>p \<in> set (foldl reduce_step [] cs). month (snd p) = fst p"
    using reduce_bill[of _ _ cs] by auto
  then show ?thesis by (induction "foldl reduce_step [] cs") auto
qed

lemma affiliate_groups:
  fixes ms :: "'n::{zero,plus} pending_commission list"
  defines "gs \<equiv> foldl (group_step (\<lambda>c. aff_id (pc_affiliate c)) init_group add_totals) [] ms"
  shows "fst ` set gs = (\<lambda>c. aff_id (pc_affiliate c)) ` set ms \<and> distinct (map fst gs)
       \<and> (\<forall>p \<in> set gs.
             aff_id (affiliate (snd p)) = fst p
             \<and> totalCommissions (snd p)
                 = js_sum (map pc_commissionAmount (filter (\<lambda>c. aff_id (pc_affiliate c) = fst p) ms))
             \<and> totalSales (snd p)
                 = js_sum (map pc_saleAmount (filter (\<lambda>c. aff_id (pc_affiliate c) = fst p) ms))
             \<and> transactionCount (snd p) = length (filter (\<lambda>c. aff_id (pc_affiliate c) = fst p) ms)
             \<and> commissionIds (snd p) = map pc_id (filter (\<lambda>c. aff_id (pc_affiliate c) = fst p) ms))"
proof -
  note gk = group_fold_keys[of "\<lambda>c. aff_id (pc_affiliate c)" init_group add_totals ms, folded gs_def]
  have "set (map fst gs) = (\<lambda>c. aff_id (pc_affiliate c)) ` set ms"
    by (rule gk[THEN conjunct1])
  then have k: "fst ` set gs = (\<lambda>c. aff_id (pc_affiliate c)) ` set ms" by simp
  have d: "distinct (map fst gs)"
    by (rule gk[THEN conjunct2])
  have m: "\<forall>p \<in> set gs.
             aff_id (affiliate (snd p)) = fst p
             \<and> totalCommissions (snd p)
                 = js_sum (map pc_commissionAmount (filter (\<lambda>c. aff_id (pc_affiliate c) = fst p) ms))
             \<and> totalSales (snd p)
                 = js_sum (map pc_saleAmount (filter (\<lambda>c. aff_id (pc_affiliate c) = fst p) ms))
             \<and> transactionCount (snd p) = length (filter (\<lambda>c. aff_id (pc_affiliate c) = fst p) ms)
             \<and> commissionIds (snd p) = map pc_id (filter (\<lambda>c. aff_id (pc_affiliate c) = fst p) ms)"
  proof
    fix p assume p: "p \<in> set gs"
    obtain a g where ag: "p = (a, g)" by (cases p)
    let ?f = "filter (\<lambda>c. aff_id (pc_affiliate c) = a) ms"
    have "map_of gs a = Some g" using p d ag by simp
    then have "(case ?f of [] \<Rightarrow> None
                 | c0 # r \<Rightarrow> Some (foldl (\<lambda>v c. add_totals c v) (init_group c0) (c0 # r))) = Some g"
      unfolding gs_def group_fold_value .
    then obtain c0 r where f: "?f = c0 # r"
      and g: "g = foldl (\<lambda>v c. add_totals c v) (init_group c0) ?f"
      by (cases ?f) simp_all
    have "c0 \<in> set ?f" unfolding f by simp
    then have a: "aff_id (pc_affiliate c0) = a" by simp
    note h = group_fold_fields[of c0 ?f, folded g]
    show "aff_id (affiliate (snd p)) = fst p
             \<and> totalCommissions (snd p)
                 = js_sum (map pc_commissionAmount (filter (\<lambda>c. aff_id (pc_affiliate c) = fst p) ms))
             \<and> totalSales (snd p)
                 = js_sum (map pc_saleAmount (filter (\<lambda>c. aff_id (pc_affiliate c) = fst p) ms))
             \<and> transactionCount (snd p) = length (filter (\<lambda>c. aff_id (pc_affiliate c) = fst p) ms)
             \<and> commissionIds (snd p) = map pc_id (filter (\<lambda>c. aff_id (pc_affiliate c) = fst p) ms)"
      unfolding ag fst_conv snd_conv using h a by simp
  qed
  from k d m show ?thesis by (intro conjI)
qed

section \<open>Sorting with a comparator\<close>

lemma set_insert_by [simp]: "set (insert_by cmp x ys) = insert x (set ys)"
  by (induction ys) auto

lemma length_insert_by [simp]: "length (insert_by cmp x ys) = Suc (length ys)"
  by (induction ys) auto

lemma distinct_map_insert_by:
  "distinct (map f (insert_by cmp x ys)) = (f x \<notin> f ` set ys \<and> distinct (map f ys))"
  by (induction ys) auto

lemma sorted_insert_by:
  fixes key :: "'a \<Rightarrow> 'k::linorder"
  assumes c: "\<And>x y. (cmp x y \<le> 0) = (key y \<le> key x)"
    and s: "sorted_wrt (\<lambda>a b. key b \<le> key a) ys"
  shows "sorted_wrt (\<lambda>a b. key b \<le> key a) (insert_by cmp x ys)"
  using s
proof (induction ys)
  case Nil
  show ?case by simp
next
  case (Cons y ys)
  show ?case
  proof (cases "cmp x y \<le> 0")
    case True
    then have "key y \<le> key x" using c by simp
    with Cons.prems True show ?thesis by auto
  next
    case False
    then have "key x \<le> key y" using c[of x y] by simp
    with Cons False show ?thesis by auto
  qed
qed

lemma sort_by_props:
  fixes key :: "'a \<Rightarrow> 'k::linorder"
  assumes c: "\<And>x y. (cmp x y \<le> 0) = (key y \<le> key x)"
  shows "set (sort_by cmp xs) = set xs \<and> length (sort_by cmp xs) = length xs
       \<and> (distinct (map f (sort_by cmp xs)) = distinct (map f xs))
       \<and> sorted_wrt (\<lambda>a b. key b \<le> key a) (sort_by cmp xs)"
proof (induction xs)
  case Nil
  show ?case by (simp add: sort_by_def)
next
  case (Cons x xs)
  have e: "sort_by cmp (x # xs) = insert_by cmp x (sort_by cmp xs)" by (simp add: sort_by_def)
  show ?case unfolding e
    using Cons sorted_insert_by[where cmp = cmp and key = key and ys = "sort_by cmp xs" and x = x, OF c]
    by (simp add: distinct_map_insert_by)
qed

lemma sorted_wrt_strict:
  fixes key :: "'a \<Rightarrow> 'k::linorder"
  assumes "sorted_wrt (\<lambda>a b. key b \<le> key a) xs" and "distinct (map key xs)"
  shows "sorted_wrt (\<lambda>a b. key b < key a) xs"
  using assms
proof (induction xs)
  case Nil
  show ?case by simp
next
  case (Cons a xs)
  have "key b < key a" if "b \<in> set xs" for b
  proof -
    have "key b \<le> key a" using Cons.prems(1) that by simp
    moreover have "key a \<notin> key ` set xs" using Cons.prems(2) by simp
    then have "key b \<noteq> key a" using that by (metis imageI)
    ultimately show ?thesis by simp
  qed
  with Cons show ?case by simp
qed

lemma localeCompare_le: "(localeCompare a b \<le> 0) = (a \<le> b)"
  by (auto simp: localeCompare_def)

section \<open>Month keys and the calendar\<close>

lemma digit_char_order:
  assumes "i < 10" "j < 10"
  shows "(digit_char i < digit_char j) = (i < j)" and "(digit_char i = digit_char j) = (i = j)"
proof -
  have o: "of_char (digit_char n) = 48 + n" if "n < 10" for n
    using that by (simp add: digit_char_def)
  show "(digit_char i < digit_char j) = (i < j)"
    using assms by (simp add: less_char_def o)
  have "digit_char i = digit_char j \<Longrightarrow> i = j"
  proof -
    assume "digit_char i = digit_char j"
    then have "(of_char (digit_char i) :: nat) = of_char (digit_char j)" by simp
    then show "i = j" using assms by (simp add: o)
  qed
  then show "(digit_char i = digit_char j) = (i = j)" by auto
qed

lemma lex_append_same_length:
  fixes xs ys :: "'a::linorder list"
  assumes "length xs = length ys"
  shows "(xs @ us < ys @ vs) = (xs < ys \<or> xs = ys \<and> us < vs)"
  using assms by (induction xs ys rule: list_induct2) auto

lemma show_nat_length_pos: "0 < length (show_nat n)"
  by (cases "n < 10") (simp_all add: show_nat_small show_nat_large)

lemma show_nat_length_1: "(length (show_nat n) = 1) = (n < 10)"
  using show_nat_length_pos[of "n div 10"]
  by (cases "n < 10") (simp_all add: show_nat_small show_nat_large)

lemma div_mod_eq: "((a::nat) = b) = (a div 10 = b div 10 \<and> a mod 10 = b mod 10)"
  by (metis div_mult_mod_eq)

lemma div_mod_less:
  "((a::nat) < b) = (a div 10 < b div 10 \<or> a div 10 = b div 10 \<and> a mod 10 < b mod 10)"
proof -
  have a: "a = 10 * (a div 10) + a mod 10" and b: "b = 10 * (b div 10) + b mod 10" by simp_all
  have "a mod 10 < 10" "b mod 10 < 10" by simp_all
  then show ?thesis by (subst a, subst b) linarith
qed

lemma show_nat_order:
  "length (show_nat a) = length (show_nat b) \<Longrightarrow>
     (show_nat a < show_nat b) = (a < b) \<and> (show_nat a = show_nat b) = (a = b)"
proof (induction a arbitrary: b rule: show_nat.induct)
  case (1 a)
  show ?case
  proof (cases "a < 10")
    case True
    then have "b < 10" using "1.prems" show_nat_length_1[of b] by (simp add: show_nat_small)
    with True show ?thesis by (simp add: show_nat_small digit_char_order)
  next
    case False
    then have a: "10 \<le> a" by simp
    have "length (show_nat a) \<noteq> 1" using False show_nat_length_1[of a] by simp
    then have b: "10 \<le> b" using "1.prems" show_nat_length_1[of b] by auto
    have l: "length (show_nat (a div 10)) = length (show_nat (b div 10))"
      using "1.prems" a b by (simp add: show_nat_large)
    note ih = "1.IH"[OF False l]
    have ma: "a mod 10 < 10" and mb: "b mod 10 < 10" by simp_all
    have ar: "(a < b) = (a div 10 < b div 10 \<or> a div 10 = b div 10 \<and> a mod 10 < b mod 10)"
      by (rule div_mod_less)
    have ae: "(a = b) = (a div 10 = b div 10 \<and> a mod 10 = b mod 10)"
      by (rule div_mod_eq)
    show ?thesis
      unfolding show_nat_large[OF a] show_nat_large[OF b]
      using ih digit_char_order[OF ma mb]
      by (simp add: lex_append_same_length[OF l] ar ae)
  qed
qed

lemma show_nat_length_4:
  assumes "1000 \<le> y" "y \<le> 9999"
  shows "length (show_nat y) = 4"
proof -
  have "10 \<le> y" "10 \<le> y div 10" "10 \<le> y div 10 div 10" "y div 10 div 10 div 10 < 10"
    using assms by simp_all
  then show ?thesis by (simp add: show_nat_large show_nat_small)
qed

lemma month_digits:
  assumes "n < 100"
  shows "padStart 2 (CHR ''0'') (show_nat n) = [digit_char (n div 10), digit_char (n mod 10)]"
proof (cases "n < 10")
  case True
  then show ?thesis by (simp add: show_nat_small padStart_def digit_chars(1))
next
  case False
  then have "10 \<le> n" "n div 10 < 10" using assms by simp_all
  then show ?thesis by (simp add: show_nat_large show_nat_small padStart_def)
qed

definition valid_date :: "js_date \<Rightarrow> bool" where
  "valid_date d = (1000 \<le> getFullYear d \<and> getFullYear d \<le> 9999 \<and> getMonth d < 12)"

lemma monthKey_order:
  assumes "valid_date d" "valid_date e"
  shows "(monthKey d < monthKey e) = ((getFullYear d, getMonth d) < (getFullYear e, getMonth e))"
    and "(monthKey d = monthKey e) = ((getFullYear d, getMonth d) = (getFullYear e, getMonth e))"
proof -
  let ?m = "getMonth d + 1" and ?n = "getMonth e + 1"
  have v12: "?m < 100" "?n < 100" using assms by (simp_all add: valid_date_def)
  have v34: "?m div 10 < 10" "?n div 10 < 10"
    using v12 by (simp_all add: less_mult_imp_div_less)
  have v56: "?m mod 10 < 10" "?n mod 10 < 10" by simp_all
  note v = v12 v34 v56
  have l: "length (show_nat (getFullYear d)) = length (show_nat (getFullYear e))"
    using assms by (simp add: valid_date_def show_nat_length_4)
  note y = show_nat_order[OF l]
  have ar: "(getMonth d < getMonth e)
      = (?m div 10 < ?n div 10 \<or> ?m div 10 = ?n div 10 \<and> ?m mod 10 < ?n mod 10)"
    using div_mod_less[of ?m ?n] by simp
  have ae: "(getMonth d = getMonth e) = (?m div 10 = ?n div 10 \<and> ?m mod 10 = ?n mod 10)"
    using div_mod_eq[of ?m ?n] by simp
  let ?M = "padStart 2 (CHR ''0'') (show_nat ?m)" and ?N = "padStart 2 (CHR ''0'') (show_nat ?n)"
  have mlt: "(?M < ?N) = (getMonth d < getMonth e)"
    unfolding month_digits[OF v(1)] month_digits[OF v(2)] ar
    using digit_char_order[OF v(3) v(4)] digit_char_order[OF v(5) v(6)] by simp
  have meq: "(?M = ?N) = (getMonth d = getMonth e)"
    unfolding month_digits[OF v(1)] month_digits[OF v(2)] ae
    using digit_char_order[OF v(3) v(4)] digit_char_order[OF v(5) v(6)] by simp
  have k: "monthKey d = show_nat (getFullYear d) @ (CHR ''-'' # ?M)"
    "monthKey e = show_nat (getFullYear e) @ (CHR ''-'' # ?N)"
    by (simp_all add: monthKey_def)
  have "(monthKey d < monthKey e)
      = (show_nat (getFullYear d) < show_nat (getFullYear e)
         \<or> show_nat (getFullYear d) = show_nat (getFullYear e) \<and> ?M < ?N)"
    unfolding k lex_append_same_length[OF l] by simp
  also have "\<dots> = (getFullYear d < getFullYear e
         \<or> getFullYear d = getFullYear e \<and> getMonth d < getMonth e)"
    unfolding mlt using y by simp
  also have "\<dots> = ((getFullYear d, getMonth d) < (getFullYear e, getMonth e))"
    by (auto simp: less_prod_def)
  finally show "(monthKey d < monthKey e) = ((getFullYear d, getMonth d) < (getFullYear e, getMonth e))" .
  have "(monthKey d = monthKey e)
      = (show_nat (getFullYear d) = show_nat (getFullYear e) \<and> ?M = ?N)"
    unfolding k using l by simp
  also have "\<dots> = (getFullYear d = getFullYear e \<and> getMonth d = getMonth e)"
    unfolding meq using y by simp
  finally show "(monthKey d = monthKey e) = ((getFullYear d, getMonth d) = (getFullYear e, getMonth e))"
    by simp
qed

definition members_of :: "string \<Rightarrow> 'n pending_commission list \<Rightarrow> 'n pending_commission list" where
  "members_of k cs = filter (\<lambda>c. monthKey (pc_createdAt c) = k) cs"

definition of_affiliate :: "string \<Rightarrow> 'n pending_commission list \<Rightarrow> 'n pending_commission list" where
  "of_affiliate a cs = filter (\<lambda>c. aff_id (pc_affiliate c) = a) cs"

definition calendar_month :: "'n pending_commission \<Rightarrow> nat \<times> nat" where
  "calendar_month c = (getFullYear (pc_createdAt c), getMonth (pc_createdAt c))"

lemma bills_set:
  fixes cs :: "'n::{zero,plus} pending_commission list"
  shows "set (getMonthlyBills (Some cs)) = snd ` set (foldl reduce_step [] cs)"
    and "length (getMonthlyBills (Some cs)) = length (foldl reduce_step [] cs)"
    and "distinct (map month (getMonthlyBills (Some cs)))"
    and "sorted_wrt (\<lambda>a b. month b \<le> month a) (getMonthlyBills (Some cs))"
proof -
  let ?cmp = "\<lambda>a b :: 'n monthly_bill. localeCompare (month b) (month a)"
  have c: "\<And>x y. (?cmp x y \<le> 0) = (month y \<le> month x)" by (simp add: localeCompare_le)
  note p = sort_by_props[of ?cmp month "map snd (foldl reduce_step [] cs)" month, OF c]
  show "set (getMonthlyBills (Some cs)) = snd ` set (foldl reduce_step [] cs)"
    using p by (simp add: getMonthlyBills_def)
  show "length (getMonthlyBills (Some cs)) = length (foldl reduce_step [] cs)"
    using p by (simp add: getMonthlyBills_def)
  have "distinct (map month (map snd (foldl reduce_step [] cs)))"
    unfolding reduce_months using reduce_keys[of cs] by blast
  then show "distinct (map month (getMonthlyBills (Some cs)))"
    using p by (simp add: getMonthlyBills_def)
  show "sorted_wrt (\<lambda>a b. month b \<le> month a) (getMonthlyBills (Some cs))"
    using p by (simp add: getMonthlyBills_def)
qed

lemma bill_contents:
  fixes cs :: "'n::{zero,plus} pending_commission list"
  assumes "b \<in> set (getMonthlyBills (Some cs))"
  shows "totalCommissions b = js_sum (map pc_commissionAmount (members_of (month b) cs))
       \<and> totalSales b = js_sum (map pc_saleAmount (members_of (month b) cs))
       \<and> transactionCount b = length (members_of (month b) cs)
       \<and> commissionIds b = map pc_id (members_of (month b) cs)
       \<and> members_of (month b) cs \<noteq> []
       \<and> fst ` set (affiliates b) = (\<lambda>c. aff_id (pc_affiliate c)) ` set (members_of (month b) cs)
       \<and> distinct (map fst (affiliates b))
       \<and> (\<forall>p \<in> set (affiliates b).
             aff_id (affiliate (snd p)) = fst p
             \<and> totalCommissions (snd p)
                 = js_sum (map pc_commissionAmount (of_affiliate (fst p) (members_of (month b) cs)))
             \<and> totalSales (snd p)
                 = js_sum (map pc_saleAmount (of_affiliate (fst p) (members_of (month b) cs)))
             \<and> transactionCount (snd p) = length (of_affiliate (fst p) (members_of (month b) cs))
             \<and> commissionIds (snd p) = map pc_id (of_affiliate (fst p) (members_of (month b) cs)))"
proof -
  from assms obtain k where kb: "(k, b) \<in> set (foldl reduce_step [] cs)"
    unfolding bills_set(1) by force
  note r = reduce_bill[OF kb]
  have k: "month b = k" using r by blast
  note a = affiliate_groups[of "members_of k cs"]
  show ?thesis
    unfolding k using r a
    unfolding members_of_def of_affiliate_def by simp
qed

text \<open>
  C4. For pending commissions whose creation dates have a four-digit year: the bills are
  one per calendar month of creation (two month keys are equal exactly when the calendar
  months are, and the number of bills is the number of distinct calendar months), they are
  in strictly descending order of their month key, and the order of the keys is the order
  of the calendar months, so the most recent month comes first. Every bill's
  \<^verbatim>\<open>totalCommissions\<close> and \<^verbatim>\<open>totalSales\<close> are the sums over its members (added in
  the order of the input, with the number type's own addition), its
  \<^verbatim>\<open>transactionCount\<close> is the number of its members and its \<^verbatim>\<open>commissionIds\<close> are
  their ids. Its affiliate sub-groups are one per affiliate among its members, each with
  the same four totals restricted to that affiliate's members.
\<close>

theorem getMonthlyBills_partition:
  fixes cs :: "'n::{zero,plus} pending_commission list"
  assumes valid: "\<forall>c \<in> set cs. valid_date (pc_createdAt c)"
  shows "set (map month (getMonthlyBills (Some cs))) = (\<lambda>c. monthKey (pc_createdAt c)) ` set cs
       \<and> sorted_wrt (\<lambda>a b. month b < month a) (getMonthlyBills (Some cs))
       \<and> (\<forall>c \<in> set cs. \<forall>c' \<in> set cs.
             (monthKey (pc_createdAt c) < monthKey (pc_createdAt c'))
               = (calendar_month c < calendar_month c')
             \<and> (monthKey (pc_createdAt c) = monthKey (pc_createdAt c'))
               = (calendar_month c = calendar_month c'))
       \<and> length (getMonthlyBills (Some cs)) = card (calendar_month ` set cs)
       \<and> (\<forall>b \<in> set (getMonthlyBills (Some cs)).
             totalCommissions b = js_sum (map pc_commissionAmount (members_of (month b) cs))
             \<and> totalSales b = js_sum (map pc_saleAmount (members_of (month b) cs))
             \<and> transactionCount b = length (members_of (month b) cs)
             \<and> commissionIds b = map pc_id (members_of (month b) cs)
             \<and> members_of (month b) cs \<noteq> []
             \<and> fst ` set (affiliates b)
                 = (\<lambda>c. aff_id (pc_affiliate c)) ` set (members_of (month b) cs)
             \<and> distinct (map fst (affiliates b))
             \<and> (\<forall>p \<in> set (affiliates b).
                   aff_id (affiliate (snd p)) = fst p
                   \<and> totalCommissions (snd p)
                       = js_sum (map pc_commissionAmount (of_affiliate (fst p) (members_of (month b) cs)))
                   \<and> totalSales (snd p)
                       = js_sum (map pc_saleAmount (of_affiliate (fst p) (members_of (month b) cs)))
                   \<and> transactionCount (snd p)
                       = length (of_affiliate (fst p) (members_of (month b) cs))
                   \<and> commissionIds (snd p)
                       = map pc_id (of_affiliate (fst p) (members_of (month b) cs))))"
proof -
  let ?bills = "getMonthlyBills (Some cs)"
  let ?acc = "foldl reduce_step [] cs"
  have m: "map month (map snd ?acc) = map fst ?acc" by (rule reduce_months)
  have "set (map month ?bills) = month ` snd ` set ?acc"
    using bills_set(1)[of cs] by simp
  also have "\<dots> = set (map month (map snd ?acc))" by (simp add: image_comp)
  also have "\<dots> = (\<lambda>c. monthKey (pc_createdAt c)) ` set cs"
    unfolding m using reduce_keys[of cs] by blast
  finally have 1: "set (map month ?bills) = (\<lambda>c. monthKey (pc_createdAt c)) ` set cs" .
  have 2: "sorted_wrt (\<lambda>a b. month b < month a) ?bills"
    using sorted_wrt_strict[OF bills_set(4) bills_set(3)] .
  have 3: "\<forall>c \<in> set cs. \<forall>c' \<in> set cs.
             (monthKey (pc_createdAt c) < monthKey (pc_createdAt c'))
               = (calendar_month c < calendar_month c')
             \<and> (monthKey (pc_createdAt c) = monthKey (pc_createdAt c'))
               = (calendar_month c = calendar_month c')"
    using valid monthKey_order unfolding calendar_month_def by blast
  have "length ?bills = length (map fst ?acc)" using bills_set(2)[of cs] by simp
  also have "\<dots> = card (set (map fst ?acc))"
    using reduce_keys[of cs] distinct_card by metis
  also have "\<dots> = card ((\<lambda>c. monthKey (pc_createdAt c)) ` set cs)"
    using reduce_keys[of cs] by simp
  also have "\<dots> = card (calendar_month ` set cs)"
  proof (rule bij_betw_same_card[symmetric])
    let ?g = "\<lambda>p. monthKey \<lparr>getFullYear = fst p, getMonth = snd p, getTime = 0\<rparr>"
    have e: "monthKey d = ?g (getFullYear d, getMonth d)" for d
      by (simp add: monthKey_def)
    have i: "inj_on (\<lambda>c. monthKey (pc_createdAt c)) (set cs) \<or> True" by simp
    show "bij_betw ?g (calendar_month ` set cs) ((\<lambda>c. monthKey (pc_createdAt c)) ` set cs)"
      unfolding bij_betw_def
    proof
      show "inj_on ?g (calendar_month ` set cs)"
      proof (rule inj_onI)
        fix x y assume x: "x \<in> calendar_month ` set cs" and y: "y \<in> calendar_month ` set cs"
          and g: "?g x = ?g y"
        from x obtain c where c: "c \<in> set cs" "x = calendar_month c" by blast
        from y obtain c' where c': "c' \<in> set cs" "y = calendar_month c'" by blast
        have "monthKey (pc_createdAt c) = monthKey (pc_createdAt c')"
          using g c c' e by (simp add: calendar_month_def)
        with 3 c c' show "x = y" by blast
      qed
      show "?g ` calendar_month ` set cs = (\<lambda>c. monthKey (pc_createdAt c)) ` set cs"
        by (simp add: image_comp comp_def calendar_month_def monthKey_def)
    qed
  qed
  finally have 4: "length ?bills = card (calendar_month ` set cs)" .
  have 5: "\<forall>b \<in> set ?bills.
             totalCommissions b = js_sum (map pc_commissionAmount (members_of (month b) cs))
             \<and> totalSales b = js_sum (map pc_saleAmount (members_of (month b) cs))
             \<and> transactionCount b = length (members_of (month b) cs)
             \<and> commissionIds b = map pc_id (members_of (month b) cs)
             \<and> members_of (month b) cs \<noteq> []
             \<and> fst ` set (affiliates b)
                 = (\<lambda>c. aff_id (pc_affiliate c)) ` set (members_of (month b) cs)
             \<and> distinct (map fst (affiliates b))
             \<and> (\<forall>p \<in> set (affiliates b).
                   aff_id (affiliate (snd p)) = fst p
                   \<and> totalCommissions (snd p)
                       = js_sum (map pc_commissionAmount (of_affiliate (fst p) (members_of (month b) cs)))
                   \<and> totalSales (snd p)
                       = js_sum (map pc_saleAmount (of_affiliate (fst p) (members_of (month b) cs)))
                   \<and> transactionCount (snd p)
                       = length (of_affiliate (fst p) (members_of (month b) cs))
                   \<and> commissionIds (snd p)
                       = map pc_id (of_affiliate (fst p) (members_of (month b) cs)))"
    using bill_contents by blast
  from 1 2 3 4 5 show ?thesis by (intro conjI)
qed

definition demo_affiliate :: "string \<Rightarrow> affiliate_info" where
  "demo_affiliate i =
     \<lparr>aff_id = i, aff_firstName = ''Affiliate'', aff_lastName = i,
      aff_email = i @ ''@example.com'', aff_paypalEmail = None\<rparr>"

definition demo_pending_commission ::
  "string \<Rightarrow> string \<Rightarrow> nat \<Rightarrow> rat \<Rightarrow> rat \<Rightarrow> rat pending_commission" where
  "demo_pending_commission i a m sale comm =
     \<lparr>pc_id = i, pc_affiliateUserId = a, pc_referredUserId = ''user_2'',
      pc_saleAmount = sale, pc_commissionAmount = comm, pc_paymentMonth = ''2025-06'',
      pc_status = ''pending'',
      pc_createdAt = \<lparr>getFullYear = 2025, getMonth = m, getTime = 1750000000000\<rparr>,
      pc_affiliate = demo_affiliate a\<rparr>"

definition demo_pending :: "rat pending_commission list" where
  "demo_pending =
     [demo_pending_commission ''comm_1'' ''user_1'' 5 19 (285 / 100),
      demo_pending_commission ''comm_2'' ''user_1'' 4 10 (3 / 2),
      demo_pending_commission ''comm_3'' ''user_3'' 5 90 (27 / 2)]"

lemma demo_keys:
  "monthKey \<lparr>getFullYear = 2025, getMonth = 5, getTime = t\<rparr> = ''2025-06''"
  "monthKey \<lparr>getFullYear = 2025, getMonth = 4, getTime = t\<rparr> = ''2025-05''"
  by (simp_all add: monthKey_def show_nat_small show_nat_large digit_chars padStart_def)

lemma demo_key_order: "''2025-05'' < ''2025-06''" "\<not> ''2025-06'' < ''2025-05''"
  by (simp_all add: less_char_def)

lemma demo_bills:
  "map (\<lambda>b. (month b, totalCommissions b, totalSales b, transactionCount b, commissionIds b,
             map (\<lambda>p. (fst p, totalCommissions (snd p), transactionCount (snd p), commissionIds (snd p)))
               (affiliates b)))
     (getMonthlyBills (Some demo_pending))
   = [(''2025-06'', 16 + 35 / 100, 109, 2, [''comm_1'', ''comm_3''],
        [(''user_1'', 285 / 100, 1, [''comm_1'']), (''user_3'', 27 / 2, 1, [''comm_3''])]),
      (''2025-05'', 3 / 2, 10, 1, [''comm_2''], [(''user_1'', 3 / 2, 1, [''comm_2''])])]"
  by (simp add: getMonthlyBills_def demo_pending_def demo_pending_commission_def reduce_step_def
      demo_keys Let_def sort_by_def localeCompare_def demo_key_order demo_affiliate_def)

theorem getMonthlyBills_partition_witness:
  "length (getMonthlyBills (Some demo_pending)) = 2
   \<and> card (calendar_month ` set demo_pending) = 2
   \<and> map (\<lambda>b. (month b, totalCommissions b, totalSales b, transactionCount b, commissionIds b,
             map (\<lambda>p. (fst p, totalCommissions (snd p), transactionCount (snd p), commissionIds (snd p)))
               (affiliates b)))
     (getMonthlyBills (Some demo_pending))
   = [(''2025-06'', 16 + 35 / 100, 109, 2, [''comm_1'', ''comm_3''],
        [(''user_1'', 285 / 100, 1, [''comm_1'']), (''user_3'', 27 / 2, 1, [''comm_3''])]),
      (''2025-05'', 3 / 2, 10, 1, [''comm_2''], [(''user_1'', 3 / 2, 1, [''comm_2''])])]"
proof -
  have v: "\<forall>c \<in> set demo_pending. valid_date (pc_createdAt c)"
    by (simp add: demo_pending_def demo_pending_commission_def valid_date_def)
  have c: "card (calendar_month ` set demo_pending) = 2"
    by (simp add: demo_pending_def demo_pending_commission_def calendar_month_def card_insert_if)
  from getMonthlyBills_partition [OF v] c
  have "length (getMonthlyBills (Some demo_pending)) = 2" by simp
  with c demo_bills show ?thesis by simp
qed

end
